theory Spec2Isabelle
  imports Main "HOL-Library.Word" "HOL-Library.Sublist"
begin

unbundle bit_operations_syntax

section \<open>Data model\<close>

text \<open>
  The extents of \<^verbatim>\<open>puffin/common.h\<close>: two unsigned 64-bit fields, \<^verbatim>\<open>offset\<close> and
  \<^verbatim>\<open>length\<close>, counted in bytes (\<^verbatim>\<open>ByteExtent\<close>) or in bits (\<^verbatim>\<open>BitExtent\<close>). The
  fields carry a prefix here because \<open>length\<close> is the list function of HOL and two records
  cannot share a field name. \<^verbatim>\<open>size_t\<close> and \<^verbatim>\<open>ssize_t\<close> are 64-bit words: \<open>+\<close>, \<open>-\<close>
  and \<open>*\<close> wrap around, \<open>div\<close> and \<open>mod\<close> are the unsigned operations, \<open>sint\<close> reads a
  word as \<^verbatim>\<open>ssize_t\<close>.
\<close>

type_synonym size_t = "64 word"
type_synonym ssize_t = "64 word"
type_synonym Buffer = "8 word list"

record ByteExtent =
  byte_offset :: "64 word"
  byte_length :: "64 word"

record BitExtent =
  bit_offset :: "64 word"
  bit_length :: "64 word"

definition buffer_size :: "Buffer \<Rightarrow> size_t" where
  "buffer_size data = of_nat (length data)"

subsection \<open>Streams\<close>

text \<open>
  Modelled from the spec: the read-only memory stream behind \<^verbatim>\<open>UniqueStreamPtr\<close>. Only the
  declaration of \<^verbatim>\<open>MemoryStream\<close> is among the sources (the fields \<^verbatim>\<open>read_memory_\<close>,
  \<^verbatim>\<open>offset_\<close> and \<^verbatim>\<open>open_\<close>, which are \<open>read_memory\<close>, \<open>stream_offset\<close> and
  \<open>stream_open\<close> here); the bodies follow section 4.1 of the specification: Seek
  repositions the cursor and fails if the offset exceeds the addressable range, Read
  returns exactly the requested number of bytes and advances the cursor, failing on
  insufficient remaining data, GetSize reports the size, and a closed stream fails every
  operation. A failed operation is \<open>None\<close>. The cursor and the bounds are compared as
  natural numbers: a read of more bytes than remain fails, however large the count.
\<close>

record Stream =
  read_memory :: Buffer
  stream_offset :: nat
  stream_open :: bool

definition CreateForRead :: "Buffer \<Rightarrow> Stream" where
  "CreateForRead memory = \<lparr>read_memory = memory, stream_offset = 0, stream_open = True\<rparr>"

definition GetSize :: "Stream \<Rightarrow> size_t option" where
  "GetSize s = (if stream_open s then Some (buffer_size (read_memory s)) else None)"

definition Seek :: "Stream \<Rightarrow> size_t \<Rightarrow> Stream option" where
  "Seek s off =
     (if stream_open s \<and> unat off \<le> length (read_memory s)
      then Some (s\<lparr>stream_offset := unat off\<rparr>)
      else None)"

definition Read :: "Stream \<Rightarrow> size_t \<Rightarrow> (Buffer \<times> Stream) option" where
  "Read s len =
     (if stream_open s \<and> stream_offset s + unat len \<le> length (read_memory s)
      then Some (take (unat len) (drop (stream_offset s) (read_memory s)),
                 s\<lparr>stream_offset := stream_offset s + unat len\<rparr>)
      else None)"

subsection \<open>The bit cursor\<close>

text \<open>
  Modelled from the spec: the bit cursor \<^verbatim>\<open>BufferBitReader\<close> (\<^verbatim>\<open>bit_reader.h\<close> is not among
  the sources). The specification names it only as the low-level bit cursor over a byte
  buffer; the source uses it through \<^verbatim>\<open>CacheBits\<close>, \<^verbatim>\<open>ReadBits\<close>, \<^verbatim>\<open>DropBits\<close> and
  \<^verbatim>\<open>Offset\<close>. It is a cursor over a fixed buffer that delivers bits least significant
  first, as deflate and zlib store them: \<^verbatim>\<open>CacheBits n\<close> loads whole bytes into a 32-bit
  cache until it holds \<open>n\<close> bits and fails when the buffer and the cache together hold
  fewer than \<open>n\<close> bits (the callers test its result); \<^verbatim>\<open>ReadBits n\<close> returns the low \<open>n\<close>
  bits of the cache without consuming them; \<^verbatim>\<open>DropBits n\<close> consumes \<open>n\<close> cached bits;
  \<^verbatim>\<open>Offset\<close> is the number of bytes read so far, a partly read byte included. The callers
  only drop bits they have cached, so the counters are natural numbers.
\<close>

record BufferBitReader =
  in_buf :: Buffer
  buf_index :: nat
  in_cache :: "32 word"
  in_cache_bits :: nat

definition BufferBitReader_new :: "Buffer \<Rightarrow> BufferBitReader" where
  "BufferBitReader_new buf = \<lparr>in_buf = buf, buf_index = 0, in_cache = 0, in_cache_bits = 0\<rparr>"

function CacheBits_loop :: "BufferBitReader \<Rightarrow> nat \<Rightarrow> BufferBitReader" where
  "CacheBits_loop r nbits =
     (if in_cache_bits r < nbits
      then CacheBits_loop
             (r\<lparr>in_cache := in_cache r OR push_bit (in_cache_bits r) (ucast (in_buf r ! buf_index r)),
                buf_index := buf_index r + 1,
                in_cache_bits := in_cache_bits r + 8\<rparr>) nbits
      else r)"
  by pat_completeness auto
termination
  by (relation "measure (\<lambda>(r, nbits). nbits - in_cache_bits r)") auto

declare CacheBits_loop.simps [simp del]

definition CacheBits :: "BufferBitReader \<Rightarrow> nat \<Rightarrow> BufferBitReader option" where
  "CacheBits r nbits =
     (if (length (in_buf r) - buf_index r) * 8 + in_cache_bits r < nbits then None
      else if 32 < nbits then None
      else Some (CacheBits_loop r nbits))"

definition ReadBits :: "BufferBitReader \<Rightarrow> nat \<Rightarrow> 32 word" where
  "ReadBits r nbits = in_cache r AND (push_bit nbits 1 - 1)"

definition DropBits :: "BufferBitReader \<Rightarrow> nat \<Rightarrow> BufferBitReader" where
  "DropBits r nbits =
     r\<lparr>in_cache := drop_bit nbits (in_cache r), in_cache_bits := in_cache_bits r - nbits\<rparr>"

definition Offset :: "BufferBitReader \<Rightarrow> nat" where
  "Offset r = buf_index r - in_cache_bits r div 8"

text \<open>The number of bits the cursor has consumed: the bits loaded less the bits still cached.\<close>

definition consumed_bits :: "BufferBitReader \<Rightarrow> nat" where
  "consumed_bits r = buf_index r * 8 - in_cache_bits r"

subsection \<open>The deflate codec\<close>

text \<open>
  \<^verbatim>\<open>Puffer::PuffDeflate\<close> is an external collaborator and a parameter of every function that
  calls it: given the bit cursor it fails (\<open>None\<close>) or returns the cursor after
  transcoding, the size reported by the puff writer, and the bit extents of the Huffman
  blocks relative to the start of the buffer. It is taken as a function of the cursor it
  is given: what a call returns does not depend on the calls before it.
\<close>

type_synonym Puffer = "BufferBitReader \<Rightarrow> (BufferBitReader \<times> size_t \<times> BitExtent list) option"

section \<open>The zlib container scanner\<close>

text \<open>
  Lines 99 to 136 of \<^verbatim>\<open>LocateDeflatesInZlibBlocks\<close>: the bit cursor over the two header
  bytes, the three header checks, and the header length. \<open>None\<close> is \<^verbatim>\<open>return false\<close>.
\<close>

definition zlib_header_len :: "Buffer \<Rightarrow> size_t option" where
  "zlib_header_len zlib_header =
     (let bit_reader = BufferBitReader_new zlib_header in
      case CacheBits bit_reader 8 of None \<Rightarrow> None
      | Some r1 \<Rightarrow>
          (let cmf = ReadBits r1 8; cm = ReadBits r1 4 in
           if cm \<noteq> 8 \<and> cm \<noteq> 15 then None
           else
             let r2 = DropBits r1 4; cinfo = ReadBits r2 4 in
             if 7 < cinfo then None
             else
               let r3 = DropBits r2 4 in
               (case CacheBits r3 8 of None \<Rightarrow> None
                | Some r4 \<Rightarrow>
                    (let flg = ReadBits r4 8 in
                     if (push_bit 8 cmf + flg) mod 31 \<noteq> 0 then None
                     else
                       let r5 = DropBits r4 5;
                           fdict = ReadBits r5 1;
                           r6 = DropBits r5 1;
                           r7 = DropBits r6 2;
                           header_len = 2
                       in if fdict \<noteq> 0
                          then (case CacheBits r7 32 of None \<Rightarrow> None
                                | Some r8 \<Rightarrow> (let r9 = DropBits r8 32 in Some (header_len + 4)))
                          else Some header_len))))"

section \<open>Outcomes and exceptions\<close>

text \<open>
  \<^verbatim>\<open>deflate_buffer.resize(n)\<close> throws \<^verbatim>\<open>std::length_error\<close> when \<open>n\<close> is above the
  \<^verbatim>\<open>max_size()\<close> of the vector, which for a vector of bytes on a target with 64-bit
  \<^verbatim>\<open>size_t\<close> is \<^verbatim>\<open>PTRDIFF_MAX\<close>, \<open>2 ^ 63 - 1\<close>. \<open>resize n\<close> is \<open>None\<close> when the buffer now has \<open>n\<close> bytes
  and the exception otherwise. Exhaustion of memory below that bound is not modelled.
\<close>

datatype exception = length_error

definition vector_max_size :: size_t where
  "vector_max_size = 0x7FFFFFFFFFFFFFFF"

definition resize :: "size_t \<Rightarrow> exception option" where
  "resize n = (if vector_max_size < n then Some length_error else None)"

text \<open>
  How a function that returns \<^verbatim>\<open>bool\<close> ends: it returns \<^verbatim>\<open>true\<close>, it returns
  \<^verbatim>\<open>false\<close>, or an exception leaves it. The functions below fill a vector through a
  pointer and move the cursor of a stream; they are modelled as returning the outcome
  together with the stream and the vector as they are at that moment, so that what a
  failed call leaves behind is part of the model. For one iteration of a loop
  \<open>ReturnsTrue\<close> stands for reaching the end of the loop body: the function goes on with
  the next extent and returns \<^verbatim>\<open>true\<close> after the last.
\<close>

datatype outcome = ReturnsTrue | ReturnsFalse | Throws exception

section \<open>The deflate sub-block locator\<close>

text \<open>One iteration of the loop of \<^verbatim>\<open>FindDeflateSubBlocks\<close> (lines 150 to 166).\<close>

definition FindDeflateSubBlocks_step ::
  "Puffer \<Rightarrow> Stream \<Rightarrow> ByteExtent \<Rightarrow> BitExtent list \<Rightarrow> outcome \<times> Stream \<times> BitExtent list" where
  "FindDeflateSubBlocks_step puffer src deflate subblock_deflates =
     (case Seek src (byte_offset deflate) of None \<Rightarrow> (ReturnsFalse, src, subblock_deflates)
      | Some s1 \<Rightarrow>
          (case resize (byte_length deflate) of
             Some e \<Rightarrow> (Throws e, s1, subblock_deflates)
           | None \<Rightarrow>
               (case Read s1 (byte_length deflate) of
                  None \<Rightarrow> (ReturnsFalse, s1, subblock_deflates)
                | Some (deflate_buffer, s2) \<Rightarrow>
                    (case puffer (BufferBitReader_new deflate_buffer) of
                       None \<Rightarrow> (ReturnsFalse, s2, subblock_deflates)
                     | Some (bit_reader, puff_size, subblocks) \<Rightarrow>
                         if byte_length deflate \<noteq> of_nat (Offset bit_reader)
                         then (ReturnsFalse, s2, subblock_deflates)
                         else (ReturnsTrue, s2,
                               subblock_deflates @
                               map (\<lambda>subblock.
                                      \<lparr>bit_offset = bit_offset subblock + byte_offset deflate * 8,
                                       bit_length = bit_length subblock\<rparr>) subblocks)))))"

fun FindDeflateSubBlocks ::
  "Puffer \<Rightarrow> Stream \<Rightarrow> ByteExtent list \<Rightarrow> BitExtent list \<Rightarrow> outcome \<times> Stream \<times> BitExtent list" where
  "FindDeflateSubBlocks puffer src [] subblock_deflates = (ReturnsTrue, src, subblock_deflates)"
| "FindDeflateSubBlocks puffer src (deflate # deflates) subblock_deflates =
     (case FindDeflateSubBlocks_step puffer src deflate subblock_deflates of
        (ReturnsTrue, s, out) \<Rightarrow> FindDeflateSubBlocks puffer s deflates out
      | (ReturnsFalse, s, out) \<Rightarrow> (ReturnsFalse, s, out)
      | (Throws e, s, out) \<Rightarrow> (Throws e, s, out))"

text \<open>
  One iteration of the loop of \<^verbatim>\<open>LocateDeflatesInZlibBlocks\<close> (lines 96 to 139), and the
  loop.
\<close>

definition LocateDeflatesInZlibBlocks_step ::
  "Puffer \<Rightarrow> Stream \<Rightarrow> ByteExtent \<Rightarrow> BitExtent list \<Rightarrow> outcome \<times> Stream \<times> BitExtent list" where
  "LocateDeflatesInZlibBlocks_step puffer src zlib deflates =
     (case Seek src (byte_offset zlib) of None \<Rightarrow> (ReturnsFalse, src, deflates)
      | Some s1 \<Rightarrow>
          (case Read s1 2 of None \<Rightarrow> (ReturnsFalse, s1, deflates)
           | Some (zlib_header, s2) \<Rightarrow>
               (case zlib_header_len zlib_header of None \<Rightarrow> (ReturnsFalse, s2, deflates)
                | Some header_len \<Rightarrow>
                    FindDeflateSubBlocks puffer s2
                      [\<lparr>byte_offset = byte_offset zlib + header_len,
                        byte_length = byte_length zlib - header_len - 4\<rparr>] deflates)))"

fun LocateDeflatesInZlibBlocks ::
  "Puffer \<Rightarrow> Stream \<Rightarrow> ByteExtent list \<Rightarrow> BitExtent list \<Rightarrow> outcome \<times> Stream \<times> BitExtent list" where
  "LocateDeflatesInZlibBlocks puffer src [] deflates = (ReturnsTrue, src, deflates)"
| "LocateDeflatesInZlibBlocks puffer src (zlib # zlibs) deflates =
     (case LocateDeflatesInZlibBlocks_step puffer src zlib deflates of
        (ReturnsTrue, s, out) \<Rightarrow> LocateDeflatesInZlibBlocks puffer s zlibs out
      | (ReturnsFalse, s, out) \<Rightarrow> (ReturnsFalse, s, out)
      | (Throws e, s, out) \<Rightarrow> (Throws e, s, out))"

section \<open>The puff-location mapper\<close>

text \<open>
  The gap flag of lines 305 to 314. \<open>prev\<close> is \<^verbatim>\<open>std::prev(deflate)\<close>, or \<open>None\<close> when
  \<^verbatim>\<open>deflate == deflates.begin()\<close>.
\<close>

definition FindPuffLocations_gap :: "BitExtent option \<Rightarrow> BitExtent \<Rightarrow> int" where
  "FindPuffLocations_gap prev deflate =
     (case prev of None \<Rightarrow> 0
      | Some prev_deflate \<Rightarrow>
          if bit_offset prev_deflate + bit_length prev_deflate = bit_offset deflate
             \<and> bit_offset deflate mod 8 \<noteq> 0
          then 1 else 0)"

text \<open>
  One iteration of the loop of \<^verbatim>\<open>FindPuffLocations\<close> (lines 281 to 327), on the state of
  the source: the stream, the vector \<^verbatim>\<open>puffs\<close> and \<^verbatim>\<open>total_size_difference\<close>. Next to
  them the state carries \<open>gaps\<close>, the values the local variable \<^verbatim>\<open>gap\<close> has taken so far,
  one for each iteration that reached line 305, so that the gap flags of a run can be
  stated; \<open>gaps\<close> is not an output of the source.
\<close>

definition FindPuffLocations_step ::
  "Puffer \<Rightarrow> Stream \<Rightarrow> BitExtent option \<Rightarrow> BitExtent \<Rightarrow> ByteExtent list \<Rightarrow> ssize_t \<Rightarrow>
   int list \<Rightarrow> outcome \<times> Stream \<times> ByteExtent list \<times> ssize_t \<times> int list" where
  "FindPuffLocations_step puffer src prev deflate puffs total_size_difference gaps =
     (let start_byte = bit_offset deflate div 8;
          end_byte = (bit_offset deflate + bit_length deflate + 7) div 8
      in case resize (end_byte - start_byte) of
           Some e \<Rightarrow> (Throws e, src, puffs, total_size_difference, gaps)
         | None \<Rightarrow>
             (case Seek src start_byte of
                None \<Rightarrow> (ReturnsFalse, src, puffs, total_size_difference, gaps)
              | Some s1 \<Rightarrow>
                  (case Read s1 (end_byte - start_byte) of
                     None \<Rightarrow> (ReturnsFalse, s1, puffs, total_size_difference, gaps)
                   | Some (deflate_buffer, s2) \<Rightarrow>
                       (let bit_reader = BufferBitReader_new deflate_buffer;
                            bits_to_skip = unat (bit_offset deflate mod 8)
                        in case CacheBits bit_reader bits_to_skip of
                             None \<Rightarrow> (ReturnsFalse, s2, puffs, total_size_difference, gaps)
                           | Some r1 \<Rightarrow>
                               (case puffer (DropBits r1 bits_to_skip) of
                                  None \<Rightarrow> (ReturnsFalse, s2, puffs, total_size_difference, gaps)
                                | Some (r2, puff_size, subblocks) \<Rightarrow>
                                    if buffer_size deflate_buffer \<noteq> of_nat (Offset r2)
                                    then (ReturnsFalse, s2, puffs, total_size_difference, gaps)
                                    else
                                      let gap = FindPuffLocations_gap prev deflate;
                                          start_byte = (bit_offset deflate + 7) div 8;
                                          end_byte = (bit_offset deflate + bit_length deflate) div 8;
                                          deflate_length_in_bytes = end_byte - start_byte;
                                          puff_offset =
                                            start_byte - of_int gap + total_size_difference
                                      in (ReturnsTrue, s2,
                                          puffs @
                                          [\<lparr>byte_offset = puff_offset, byte_length = puff_size\<rparr>],
                                          total_size_difference
                                            + (puff_size - deflate_length_in_bytes - of_int gap),
                                          gaps @ [gap]))))))"

text \<open>
  The loop of line 280. A run that ends in \<^verbatim>\<open>return false\<close> or in an exception leaves
  the stream, \<^verbatim>\<open>puffs\<close> and the accumulator as the failing iteration left them.
\<close>

fun FindPuffLocations_loop ::
  "Puffer \<Rightarrow> Stream \<Rightarrow> BitExtent option \<Rightarrow> BitExtent list \<Rightarrow> ByteExtent list \<Rightarrow> ssize_t \<Rightarrow>
   int list \<Rightarrow> outcome \<times> Stream \<times> ByteExtent list \<times> ssize_t \<times> int list" where
  "FindPuffLocations_loop puffer src prev [] puffs total_size_difference gaps =
     (ReturnsTrue, src, puffs, total_size_difference, gaps)"
| "FindPuffLocations_loop puffer src prev (deflate # deflates) puffs total_size_difference gaps =
     (case FindPuffLocations_step puffer src prev deflate puffs total_size_difference gaps of
        (ReturnsTrue, s, puffs', diff, gaps') \<Rightarrow>
          FindPuffLocations_loop puffer s (Some deflate) deflates puffs' diff gaps'
      | (ReturnsFalse, s, puffs', diff, gaps') \<Rightarrow> (ReturnsFalse, s, puffs', diff, gaps')
      | (Throws e, s, puffs', diff, gaps') \<Rightarrow> (Throws e, s, puffs', diff, gaps'))"

text \<open>
  \<^verbatim>\<open>FindPuffLocations\<close>: the loop, then lines 330 to 335. The result is the outcome, the
  vector \<^verbatim>\<open>puffs\<close>, and \<^verbatim>\<open>*out_puff_size\<close> when it was written.
\<close>

definition FindPuffLocations ::
  "Puffer \<Rightarrow> Stream \<Rightarrow> BitExtent list \<Rightarrow> ByteExtent list \<Rightarrow>
   outcome \<times> ByteExtent list \<times> size_t option" where
  "FindPuffLocations puffer src deflates puffs0 =
     (case FindPuffLocations_loop puffer src None deflates puffs0 0 [] of
        (ReturnsTrue, s, puffs, total_size_difference, gaps) \<Rightarrow>
          (case GetSize s of None \<Rightarrow> (ReturnsFalse, puffs, None)
           | Some src_size \<Rightarrow>
               (let final_size = src_size + total_size_difference in
                if sint final_size < 0 then (ReturnsFalse, puffs, None)
                else (ReturnsTrue, puffs, Some final_size)))
      | (ReturnsFalse, s, puffs, total_size_difference, gaps) \<Rightarrow> (ReturnsFalse, puffs, None)
      | (Throws e, s, puffs, total_size_difference, gaps) \<Rightarrow> (Throws e, puffs, None))"

section \<open>The zip container scanner\<close>

text \<open>
  \<^verbatim>\<open>get_unaligned<T>\<close> copies \<^verbatim>\<open>sizeof(T)\<close> bytes from an address that nothing checks. On
  the little-endian hosts the source supports (see its TODO) the value is the bytes read
  least significant first. A read that leaves the buffer is undefined behaviour in C++;
  here it is \<open>None\<close>, so that every read of the scanner is a checked branch of the model.
\<close>

definition get_unaligned16 :: "Buffer \<Rightarrow> nat \<Rightarrow> 16 word option" where
  "get_unaligned16 data p =
     (if p + 2 \<le> length data
      then Some (ucast (data ! p) OR push_bit 8 (ucast (data ! (p + 1))))
      else None)"

definition get_unaligned32 :: "Buffer \<Rightarrow> nat \<Rightarrow> 32 word option" where
  "get_unaligned32 data p =
     (if p + 4 \<le> length data
      then Some (ucast (data ! p) OR push_bit 8 (ucast (data ! (p + 1)))
                 OR push_bit 16 (ucast (data ! (p + 2))) OR push_bit 24 (ucast (data ! (p + 3))))
      else None)"

text \<open>
  zlib's raw inflate (\<^verbatim>\<open>inflateInit2\<close> with window -15, the \<^verbatim>\<open>inflate\<close> loop until
  \<^verbatim>\<open>Z_STREAM_END\<close>, \<^verbatim>\<open>inflateEnd\<close>) is an external collaborator and a parameter: given
  the bytes at \<^verbatim>\<open>next_in\<close> and the 32-bit \<^verbatim>\<open>avail_in\<close> it fails or returns the final
  \<^verbatim>\<open>avail_in\<close> and the number of bytes produced.
\<close>

type_synonym Inflate = "Buffer \<Rightarrow> 32 word \<Rightarrow> (32 word \<times> size_t) option"

definition CalculateSizeOfDeflateBlock ::
  "Inflate \<Rightarrow> Buffer \<Rightarrow> size_t \<Rightarrow> (size_t \<times> size_t) option" where
  "CalculateSizeOfDeflateBlock inflate data start =
     (if \<not> start < buffer_size data then None
      else
        case inflate (drop (unat start) data) (ucast (buffer_size data - start)) of
          None \<Rightarrow> None
        | Some (avail_in, uncompressed_size) \<Rightarrow>
            Some (buffer_size data - start - ucast avail_in, uncompressed_size))"

datatype scan_error = OutOfBoundsRead

text \<open>
  The body of the loop of \<^verbatim>\<open>LocateDeflatesInZipArchive\<close> (lines 187 to 251): the new
  position and the vector \<^verbatim>\<open>deflate_blocks\<close>, or the error of a read outside the buffer.
  The warnings of lines 237 to 248 are log output only.
\<close>

definition zip_scan_step ::
  "Inflate \<Rightarrow> Buffer \<Rightarrow> size_t \<Rightarrow> ByteExtent list \<Rightarrow> scan_error + size_t \<times> ByteExtent list" where
  "zip_scan_step inflate data pos deflate_blocks =
     (case get_unaligned32 data (unat pos) of None \<Rightarrow> Inl OutOfBoundsRead
      | Some signature \<Rightarrow>
          if signature \<noteq> 0x04034b50 then Inr (pos + 1, deflate_blocks)
          else
            (case get_unaligned16 data (unat pos + 8) of None \<Rightarrow> Inl OutOfBoundsRead
             | Some compression_method \<Rightarrow>
                 if compression_method \<noteq> 8 then Inr (pos + 4, deflate_blocks)
                 else
                   (case (get_unaligned32 data (unat pos + 18),
                          get_unaligned32 data (unat pos + 22),
                          get_unaligned16 data (unat pos + 26),
                          get_unaligned16 data (unat pos + 28)) of
                      (Some compressed_size, Some uncompressed_size,
                       Some file_name_length, Some extra_field_length) \<Rightarrow>
                        (let header_size = 30 + ucast file_name_length + ucast extra_field_length
                         in
                           if header_size + ucast compressed_size > buffer_size data
                              \<or> pos > buffer_size data - header_size - ucast compressed_size
                           then Inr (pos + 4, deflate_blocks)
                           else
                             (case CalculateSizeOfDeflateBlock inflate data (pos + header_size) of
                                None \<Rightarrow> Inr (pos + 4, deflate_blocks)
                              | Some (calculated_compressed_size, calculated_uncompressed_size) \<Rightarrow>
                                  Inr (pos + header_size + calculated_compressed_size,
                                       deflate_blocks @
                                       [\<lparr>byte_offset = pos + header_size,
                                         byte_length = calculated_compressed_size\<rparr>])))
                    | _ \<Rightarrow> Inl OutOfBoundsRead)))"

text \<open>
  The loop of line 184. \<^verbatim>\<open>data.size() - 30\<close> is unsigned and wraps around. Nothing bounds
  what the parameter \<open>inflate\<close> reports, so the loop is a partial function: \<open>None\<close> is a
  scan that never returns.
\<close>

partial_function (option) LocateDeflatesInZipArchive_loop ::
  "Inflate \<Rightarrow> Buffer \<Rightarrow> size_t \<Rightarrow> ByteExtent list \<Rightarrow> (scan_error + ByteExtent list) option" where
  "LocateDeflatesInZipArchive_loop inflate data pos deflate_blocks =
     (if pos \<le> buffer_size data - 30
      then (case zip_scan_step inflate data pos deflate_blocks of
              Inl e \<Rightarrow> Some (Inl e)
            | Inr (pos', deflate_blocks') \<Rightarrow>
                LocateDeflatesInZipArchive_loop inflate data pos' deflate_blocks')
      else Some (Inr deflate_blocks))"

declare LocateDeflatesInZipArchive_loop.simps [code]

definition LocateDeflatesInZipArchive ::
  "Inflate \<Rightarrow> Buffer \<Rightarrow> ByteExtent list \<Rightarrow> (scan_error + ByteExtent list) option" where
  "LocateDeflatesInZipArchive inflate data deflate_blocks =
     LocateDeflatesInZipArchive_loop inflate data 0 deflate_blocks"

section \<open>Specification-side definitions and test doubles\<close>

text \<open>
  The fields of the zlib header as RFC 1950 and the specification name them, read off the
  two header bytes \<open>cmf\<close> and \<open>flg\<close>: CM is the low nibble of \<open>cmf\<close>, CINFO its high
  nibble, FDICT is bit 5 of \<open>flg\<close>, and the header checksum is on \<open>cmf * 256 + flg\<close>.
\<close>

definition zlib_CM :: "8 word \<Rightarrow> nat" where
  "zlib_CM cmf = unat cmf mod 16"

definition zlib_CINFO :: "8 word \<Rightarrow> nat" where
  "zlib_CINFO cmf = unat cmf div 16"

definition zlib_FDICT :: "8 word \<Rightarrow> bool" where
  "zlib_FDICT flg = bit flg 5"

definition zlib_header_valid :: "8 word \<Rightarrow> 8 word \<Rightarrow> bool" where
  "zlib_header_valid cmf flg =
     ((zlib_CM cmf = 8 \<or> zlib_CM cmf = 15) \<and> zlib_CINFO cmf \<le> 7
      \<and> (unat cmf * 256 + unat flg) mod 31 = 0)"

text \<open>The header of a zlib extent: the two bytes of the stream at the extent's offset.\<close>

definition zlib_extent_header_valid :: "Buffer \<Rightarrow> ByteExtent \<Rightarrow> bool" where
  "zlib_extent_header_valid memory zlib =
     (unat (byte_offset zlib) + 2 \<le> length memory
      \<and> zlib_header_valid (memory ! unat (byte_offset zlib))
                            (memory ! (unat (byte_offset zlib) + 1)))"

text \<open>
  Two stand-ins for the codec, for concrete runs. \<open>fixed_bits_puffer n size\<close> consumes
  exactly \<open>n\<close> bits through the cursor and reports one Huffman block of \<open>n\<close> bits; with
  \<open>n = 10\<close> it does what a deflate decoder does on the bytes \<open>03 00\<close>, a final block with
  fixed codes that holds only the end-of-block symbol (3 header bits and a 7-bit code).
  \<open>whole_buffer_puffer size\<close> consumes every bit of the buffer it is given, whatever its
  length. Both report \<open>size\<close> as the size of the puff.
\<close>

definition fixed_bits_puffer :: "nat \<Rightarrow> size_t \<Rightarrow> Puffer" where
  "fixed_bits_puffer nbits puff_size r =
     (case CacheBits r nbits of None \<Rightarrow> None
      | Some r' \<Rightarrow>
          Some (DropBits r' nbits, puff_size, [\<lparr>bit_offset = 0, bit_length = of_nat nbits\<rparr>]))"

definition whole_buffer_puffer :: "size_t \<Rightarrow> Puffer" where
  "whole_buffer_puffer puff_size r =
     Some (r\<lparr>buf_index := length (in_buf r), in_cache := 0, in_cache_bits := 0\<rparr>, puff_size, [])"

text \<open>
  The quantities of the size law of the puff-location mapper, in the words of the
  specification. \<open>deflate_length_in_bytes\<close> is the deflate byte length spanned by a bit
  extent, end byte minus start byte (lines 316 to 318). \<open>gap_law\<close> is the gap flag of the
  \<open>i\<close>-th extent of a sequence: 1 only when the previous extent's bit range ends exactly at
  this extent's bit offset and this extent does not start on a byte boundary.
  \<open>size_difference_after\<close> is the running accumulator after \<open>k\<close> extents: the sum, over
  the extents so far, of the re-encoded length less the deflate byte length spanned less
  the gap flag. All sums are sums of 64-bit values, as in the source.
\<close>

definition deflate_length_in_bytes :: "BitExtent \<Rightarrow> ssize_t" where
  "deflate_length_in_bytes deflate =
     (bit_offset deflate + bit_length deflate) div 8 - (bit_offset deflate + 7) div 8"

definition gap_law :: "BitExtent list \<Rightarrow> nat \<Rightarrow> int" where
  "gap_law deflates i =
     (if 0 < i
         \<and> bit_offset (deflates ! (i - 1)) + bit_length (deflates ! (i - 1)) = bit_offset (deflates ! i)
         \<and> bit_offset (deflates ! i) mod 8 \<noteq> 0
      then 1 else 0)"

definition size_difference_after :: "BitExtent list \<Rightarrow> ByteExtent list \<Rightarrow> nat \<Rightarrow> ssize_t" where
  "size_difference_after deflates puffs k =
     (\<Sum>i<k. byte_length (puffs ! i) - deflate_length_in_bytes (deflates ! i)
             - of_int (gap_law deflates i))"

text \<open>
  The gap flag the loop computes for the \<open>i\<close>-th of the extents still to be processed,
  when \<open>prev\<close> is the extent processed last.
\<close>

definition gap_from :: "BitExtent option \<Rightarrow> BitExtent list \<Rightarrow> nat \<Rightarrow> int" where
  "gap_from prev deflates i =
     FindPuffLocations_gap (if i = 0 then prev else Some (deflates ! (i - 1))) (deflates ! i)"

text \<open>
  Buffers and stand-ins for zlib, for concrete scans. \<open>zip_deflated_entry\<close> is a local
  file header (signature, method 8, sizes left zero as in streaming mode, no name, no
  extra field) followed by the deflate payload \<open>03 00\<close> and three more bytes;
  \<open>zip_stored_entry\<close> is an entry with method 0 and the sizes declared;
  \<open>zip_header_only\<close> is the header of the first with nothing behind it, and
  \<open>zip_truncated_header\<close> its first ten bytes. \<open>two_byte_inflate\<close> reports what zlib
  reports on the payload \<open>03 00\<close>: two bytes consumed, none produced. \<open>idle_inflate\<close>
  reports success without consuming a byte.
\<close>

definition zip_deflated_entry :: Buffer where
  "zip_deflated_entry =
     [0x50, 0x4B, 0x03, 0x04, 20, 0, 0, 0, 8, 0, 0, 0, 0, 0, 0, 0, 0, 0,
      0, 0, 0, 0, 0, 0, 0, 0, 0, 0, 0, 0,
      0x03, 0x00, 0, 0, 0]"

definition zip_stored_entry :: Buffer where
  "zip_stored_entry =
     [0x50, 0x4B, 0x03, 0x04, 20, 0, 0, 0, 0, 0, 0, 0, 0, 0, 0, 0, 0, 0,
      2, 0, 0, 0, 2, 0, 0, 0, 0, 0, 0, 0,
      0x03, 0x00, 0, 0]"

definition zip_header_only :: Buffer where
  "zip_header_only =
     [0x50, 0x4B, 0x03, 0x04, 20, 0, 0, 0, 8, 0, 0, 0, 0, 0, 0, 0, 0, 0,
      0, 0, 0, 0, 0, 0, 0, 0, 0, 0, 0, 0]"


definition two_byte_inflate :: Inflate where
  "two_byte_inflate next_in avail_in = (if 2 \<le> avail_in then Some (avail_in - 2, 0) else None)"

definition idle_inflate :: Inflate where
  "idle_inflate next_in avail_in = Some (avail_in, 0)"

section \<open>Streams and the bit cursor: basic facts\<close>

lemma Seek_Some:
  "Seek s off = Some s' \<Longrightarrow>
     s' = s\<lparr>stream_offset := unat off\<rparr> \<and> stream_open s \<and> unat off \<le> length (read_memory s)"
  by (auto simp: Seek_def split: if_splits)

lemma Read_Some:
  "Read s len = Some (buf, s') \<Longrightarrow>
     buf = take (unat len) (drop (stream_offset s) (read_memory s))
     \<and> s' = s\<lparr>stream_offset := stream_offset s + unat len\<rparr>
     \<and> stream_open s \<and> stream_offset s + unat len \<le> length (read_memory s)"
  by (auto simp: Read_def split: if_splits)

lemma take_two_drop:
  assumes "n + 2 \<le> length xs"
  shows "take 2 (drop n xs) = [xs ! n, xs ! (n + 1)]"
proof -
  have "length (take 2 (drop n xs)) = 2"
    using assms by simp
  moreover have "take 2 (drop n xs) ! 0 = xs ! n" "take 2 (drop n xs) ! 1 = xs ! (n + 1)"
    using assms by simp_all
  ultimately show ?thesis
    by (auto simp: list_eq_iff_nth_eq less_Suc_eq numeral_2_eq_2)
qed

lemma CacheBits_loop_done: "\<not> in_cache_bits r < nbits \<Longrightarrow> CacheBits_loop r nbits = r"
  by (subst CacheBits_loop.simps) simp

lemma CacheBits_loop_more:
  "in_cache_bits r < nbits \<Longrightarrow>
   CacheBits_loop r nbits =
     CacheBits_loop
       (r\<lparr>in_cache := in_cache r OR push_bit (in_cache_bits r) (ucast (in_buf r ! buf_index r)),
          buf_index := buf_index r + 1,
          in_cache_bits := in_cache_bits r + 8\<rparr>) nbits"
  by (subst CacheBits_loop.simps) simp

lemma CacheBits_byte:
  assumes "in_cache_bits r = 0" and "buf_index r < length (in_buf r)"
  shows "CacheBits r 8 =
     Some (r\<lparr>in_cache := in_cache r OR ucast (in_buf r ! buf_index r),
             buf_index := Suc (buf_index r), in_cache_bits := 8\<rparr>)"
proof -
  let ?r' = "r\<lparr>in_cache := in_cache r OR push_bit (in_cache_bits r) (ucast (in_buf r ! buf_index r)),
          buf_index := buf_index r + 1,
          in_cache_bits := in_cache_bits r + 8\<rparr>"
  have "CacheBits_loop r 8 = CacheBits_loop ?r' 8"
    using assms by (simp add: CacheBits_loop_more)
  also have "\<dots> = ?r'"
    using assms by (simp add: CacheBits_loop_done)
  finally show ?thesis
    using assms by (simp add: CacheBits_def)
qed

lemma CacheBits_exhausted:
  assumes "(length (in_buf r) - buf_index r) * 8 + in_cache_bits r < nbits"
  shows "CacheBits r nbits = None"
  using assms by (simp add: CacheBits_def)

lemma CacheBits_zero: "CacheBits r 0 = Some r"
  by (simp add: CacheBits_def CacheBits_loop_done)

subsection \<open>Bytes as 32-bit values\<close>

lemma word_15_mask: "(15 :: 'a :: len word) = mask 4"
  by (simp add: mask_eq_exp_minus_1)

lemma word_255_mask: "(255 :: 'a :: len word) = mask 8"
  by (simp add: mask_eq_exp_minus_1)

lemma unat_byte_less: "unat (b :: 8 word) < 256"
  using unsigned_less [of b] by simp

lemma unat_ucast_8_32: "unat (ucast (b :: 8 word) :: 32 word) = unat b"
  by (simp add: unsigned_ucast_eq take_bit_nat_eq_self_iff)
    (rule order_less_trans [OF unsigned_less], simp)

lemma ucast_and_255: "(ucast (b :: 8 word) :: 32 word) AND 255 = ucast b"
  unfolding word_255_mask
  by (rule bit_word_eqI) (auto simp add: bit_simps dest: bit_imp_le_length)

lemma drop_bit_8_ucast: "drop_bit 8 (ucast (b :: 8 word) :: 32 word) = 0"
  by (rule bit_word_eqI) (auto simp add: bit_simps dest: bit_imp_le_length)

lemma unat_low_nibble: "unat ((ucast (b :: 8 word) :: 32 word) AND 15) = unat b mod 16"
  unfolding word_15_mask
  by (simp add: take_bit_eq_mod unat_mod unat_ucast_8_32 flip: take_bit_eq_mask)

lemma unat_high_nibble:
  "unat (drop_bit 4 (ucast (b :: 8 word) :: 32 word) AND 15) = unat b div 16"
  unfolding word_15_mask
  using unat_byte_less [of b]
  by (simp add: take_bit_eq_mod unat_mod unat_div unat_ucast_8_32 drop_bit_eq_div
      flip: take_bit_eq_mask)

lemma unat_header_value:
  "unat (push_bit 8 (ucast b0) + ucast b1 :: 32 word) = unat (b0 :: 8 word) * 256 + unat (b1 :: 8 word)"
  using unat_byte_less [of b0] unat_byte_less [of b1]
  by (simp add: unat_word_ariths unsigned_push_bit_eq unat_ucast_8_32 push_bit_eq_mult
      take_bit_eq_mod)

lemma fdict_bit: "drop_bit 5 (ucast (b1 :: 8 word) :: 32 word) AND 1 \<noteq> 0 \<longleftrightarrow> bit b1 5"
  by (simp add: and_one_eq bit_iff_odd_drop_bit word_eq_iff_unsigned [where ?'a = nat] unat_mod
      unat_div unat_ucast_8_32 drop_bit_eq_div odd_iff_mod_2_eq_one)

section \<open>The zlib header\<close>

lemma zlib_header_len_word:
  "zlib_header_len [b0, b1] =
     (if (ucast b0 AND (15 :: 32 word)) \<noteq> 8 \<and> (ucast b0 AND (15 :: 32 word)) \<noteq> 15 then None
      else if 7 < (drop_bit 4 (ucast b0 :: 32 word) AND 15) then None
      else if (push_bit 8 (ucast b0) + ucast b1 :: 32 word) mod 31 \<noteq> 0 then None
      else if (drop_bit 5 (ucast b1 :: 32 word) AND 1) \<noteq> 0 then None
      else Some 2)"
  by (simp add: zlib_header_len_def BufferBitReader_new_def Let_def ReadBits_def DropBits_def
      CacheBits_byte CacheBits_exhausted drop_bit_8_ucast ucast_and_255)

text \<open>
  What the header stage computes on two bytes: it passes exactly the valid headers without
  FDICT, and the header length is then 2. With FDICT set \<^verbatim>\<open>CacheBits(32)\<close> is asked of a
  cursor over the two header bytes, both consumed, and fails.
\<close>

lemma zlib_header_len_two:
  "zlib_header_len [b0, b1] =
     (if zlib_header_valid b0 b1 \<and> \<not> zlib_FDICT b1 then Some 2 else None)"
proof -
  have cm: "(ucast b0 AND (15 :: 32 word)) = 8 \<longleftrightarrow> zlib_CM b0 = 8"
    "(ucast b0 AND (15 :: 32 word)) = 15 \<longleftrightarrow> zlib_CM b0 = 15"
    by (simp_all add: word_eq_iff_unsigned [where ?'a = nat] unat_low_nibble zlib_CM_def)
  have cinfo: "7 < (drop_bit 4 (ucast b0 :: 32 word) AND 15) \<longleftrightarrow> \<not> zlib_CINFO b0 \<le> 7"
    by (simp add: word_less_nat_alt unat_high_nibble zlib_CINFO_def not_le)
  have chk: "(push_bit 8 (ucast b0) + ucast b1 :: 32 word) mod 31 = 0
       \<longleftrightarrow> (unat b0 * 256 + unat b1) mod 31 = 0"
    by (simp add: word_eq_iff_unsigned [where ?'a = nat] unat_mod unat_header_value)
  show ?thesis
    unfolding zlib_header_len_word cm cinfo chk fdict_bit zlib_header_valid_def zlib_FDICT_def
    by auto
qed

section \<open>Loops, one extent at a time\<close>

lemma resize_None: "resize n = None \<longleftrightarrow> n \<le> vector_max_size"
  by (auto simp: resize_def not_less)

lemma resize_Some: "resize n = Some e \<longleftrightarrow> e = length_error \<and> vector_max_size < n"
  by (auto simp: resize_def)

lemma FindDeflateSubBlocks_Cons:
  assumes "FindDeflateSubBlocks_step puffer src d out = (ok1, s1, out1)"
  shows "FindDeflateSubBlocks puffer src (d # ds) out
           = (if ok1 = ReturnsTrue then FindDeflateSubBlocks puffer s1 ds out1 else (ok1, s1, out1))"
  using assms by (cases ok1) simp_all

lemma LocateDeflatesInZlibBlocks_Cons:
  assumes "LocateDeflatesInZlibBlocks_step puffer src z out = (ok1, s1, out1)"
  shows "LocateDeflatesInZlibBlocks puffer src (z # zs) out
           = (if ok1 = ReturnsTrue then LocateDeflatesInZlibBlocks puffer s1 zs out1
              else (ok1, s1, out1))"
  using assms by (cases ok1) simp_all

section \<open>The stream's memory is never changed\<close>

lemma FindDeflateSubBlocks_step_memory:
  "FindDeflateSubBlocks_step puffer src d out = (ok, s', out') \<Longrightarrow>
     read_memory s' = read_memory src"
  by (auto simp: FindDeflateSubBlocks_step_def split: option.splits if_splits prod.splits
      dest!: Seek_Some Read_Some)

lemma FindDeflateSubBlocks_memory:
  "FindDeflateSubBlocks puffer src ds out = (ok, s', out') \<Longrightarrow>
     read_memory s' = read_memory src"
proof (induction ds arbitrary: src out)
  case Nil
  then show ?case by simp
next
  case (Cons d ds)
  obtain ok1 s1 out1 where step: "FindDeflateSubBlocks_step puffer src d out = (ok1, s1, out1)"
    by (cases "FindDeflateSubBlocks_step puffer src d out") auto
  have mem1: "read_memory s1 = read_memory src"
    using step by (rule FindDeflateSubBlocks_step_memory)
  from Cons.prems have res:
    "(if ok1 = ReturnsTrue then FindDeflateSubBlocks puffer s1 ds out1 else (ok1, s1, out1))
       = (ok, s', out')"
    unfolding FindDeflateSubBlocks_Cons [OF step] .
  show ?case
  proof (cases "ok1 = ReturnsTrue")
    case True
    with res have "FindDeflateSubBlocks puffer s1 ds out1 = (ok, s', out')"
      by simp
    then have "read_memory s' = read_memory s1" by (rule Cons.IH)
    with mem1 show ?thesis by simp
  next
    case False
    with res have "s' = s1" by simp
    with mem1 show ?thesis by simp
  qed
qed

lemma LocateDeflatesInZlibBlocks_step_memory:
  "LocateDeflatesInZlibBlocks_step puffer src z out = (ok, s', out') \<Longrightarrow>
     read_memory s' = read_memory src"
  by (auto simp: LocateDeflatesInZlibBlocks_step_def simp del: FindDeflateSubBlocks.simps
      split: option.splits dest!: Seek_Some Read_Some FindDeflateSubBlocks_memory)

lemma LocateDeflatesInZlibBlocks_step_header:
  assumes "LocateDeflatesInZlibBlocks_step puffer src z out = (ReturnsTrue, s', out')"
  shows "zlib_extent_header_valid (read_memory src) z"
proof -
  from assms obtain s1 hdr s2 hl where
    seek: "Seek src (byte_offset z) = Some s1" and rd: "Read s1 2 = Some (hdr, s2)"
    and hl: "zlib_header_len hdr = Some hl"
    by (auto simp: LocateDeflatesInZlibBlocks_step_def split: option.splits)
  from Seek_Some [OF seek] have s1: "s1 = src\<lparr>stream_offset := unat (byte_offset z)\<rparr>" by simp
  from Read_Some [OF rd] s1 have
    len: "unat (byte_offset z) + 2 \<le> length (read_memory src)"
    and hdr: "hdr = take 2 (drop (unat (byte_offset z)) (read_memory src))"
    by simp_all
  from hdr len have hdr': "hdr = [read_memory src ! unat (byte_offset z),
      read_memory src ! (unat (byte_offset z) + 1)]"
    by (simp add: take_two_drop)
  from hl show ?thesis
    unfolding hdr' zlib_header_len_two zlib_extent_header_valid_def
    using len by (simp split: if_splits)
qed

lemma LocateDeflatesInZlibBlocks_headers:
  "LocateDeflatesInZlibBlocks puffer src zlibs out = (ReturnsTrue, s', out') \<Longrightarrow>
     \<forall>z \<in> set zlibs. zlib_extent_header_valid (read_memory src) z"
proof (induction zlibs arbitrary: src out)
  case Nil
  then show ?case by simp
next
  case (Cons z zs)
  obtain ok1 s1 out1 where step: "LocateDeflatesInZlibBlocks_step puffer src z out = (ok1, s1, out1)"
    by (cases "LocateDeflatesInZlibBlocks_step puffer src z out") auto
  from Cons.prems have res:
    "(if ok1 = ReturnsTrue then LocateDeflatesInZlibBlocks puffer s1 zs out1
      else (ok1, s1, out1)) = (ReturnsTrue, s', out')"
    unfolding LocateDeflatesInZlibBlocks_Cons [OF step] .
  then have ok1: "ok1 = ReturnsTrue"
    by (simp split: if_splits)
  with res have rest:
    "LocateDeflatesInZlibBlocks puffer s1 zs out1 = (ReturnsTrue, s', out')"
    by simp
  have "read_memory s1 = read_memory src"
    using step by (rule LocateDeflatesInZlibBlocks_step_memory)
  moreover have "zlib_extent_header_valid (read_memory src) z"
    using step ok1 by (auto intro: LocateDeflatesInZlibBlocks_step_header)
  moreover have "\<forall>z \<in> set zs. zlib_extent_header_valid (read_memory s1) z"
    using rest by (rule Cons.IH)
  ultimately show ?case by simp
qed

lemma zlib_header_len_fdict: "zlib_FDICT flg \<Longrightarrow> zlib_header_len [cmf, flg] = None"
  by (simp add: zlib_header_len_two)

lemma Read_two:
  assumes "Read s 2 = Some (hdr, s')"
  shows "hdr = [read_memory s ! stream_offset s, read_memory s ! (stream_offset s + 1)]"
  using Read_Some [OF assms] by (simp add: take_two_drop)

section \<open>Claims about the zlib container scanner\<close>



text \<open>
  Claim C7, at the input where the code departs from it. The header \<open>78 BB\<close> passes the
  three header checks and has FDICT set. The claim has the scanner skip the four bytes of
  the dictionary identifier and hand the extent at offset 6 to the sub-block locator,
  which, as the last equation shows, would find the block at bit 48. The scanner instead
  returns \<^verbatim>\<open>false\<close> with the cursor still behind the two header bytes: \<^verbatim>\<open>CacheBits(32)\<close>
  is asked of a bit cursor that was built over the two header bytes only.
\<close>

theorem fdict_header_call_fails:
  "zlib_header_valid 0x78 0xBB \<and> zlib_FDICT 0xBB
   \<and> zlib_header_len [0x78, 0xBB] = None
   \<and> LocateDeflatesInZlibBlocks (fixed_bits_puffer 10 7)
        (CreateForRead [0x78, 0xBB, 0, 0, 0, 0, 3, 0, 0, 0, 0, 0])
        [\<lparr>byte_offset = 0, byte_length = 12\<rparr>] []
      = (ReturnsFalse,
         \<lparr>read_memory = [0x78, 0xBB, 0, 0, 0, 0, 3, 0, 0, 0, 0, 0], stream_offset = 2,
          stream_open = True\<rparr>, [])
   \<and> FindDeflateSubBlocks (fixed_bits_puffer 10 7)
        \<lparr>read_memory = [0x78, 0xBB, 0, 0, 0, 0, 3, 0, 0, 0, 0, 0], stream_offset = 2,
         stream_open = True\<rparr>
        [\<lparr>byte_offset = 0 + 6, byte_length = 12 - 6 - 4\<rparr>] []
      = (ReturnsTrue,
         \<lparr>read_memory = [0x78, 0xBB, 0, 0, 0, 0, 3, 0, 0, 0, 0, 0], stream_offset = 8,
          stream_open = True\<rparr>, [\<lparr>bit_offset = 48, bit_length = 10\<rparr>])"
proof -
  have "zlib_header_valid 0x78 0xBB"
    by (simp add: zlib_header_valid_def zlib_CM_def zlib_CINFO_def)
  moreover have "zlib_FDICT 0xBB"
    by (simp add: zlib_FDICT_def)
  moreover have "zlib_header_len [0x78, 0xBB] = None"
    by code_simp
  moreover have "LocateDeflatesInZlibBlocks (fixed_bits_puffer 10 7)
        (CreateForRead [0x78, 0xBB, 0, 0, 0, 0, 3, 0, 0, 0, 0, 0])
        [\<lparr>byte_offset = 0, byte_length = 12\<rparr>] []
      = (ReturnsFalse,
         \<lparr>read_memory = [0x78, 0xBB, 0, 0, 0, 0, 3, 0, 0, 0, 0, 0], stream_offset = 2,
          stream_open = True\<rparr>, [])"
    by code_simp
  moreover have "FindDeflateSubBlocks (fixed_bits_puffer 10 7)
        \<lparr>read_memory = [0x78, 0xBB, 0, 0, 0, 0, 3, 0, 0, 0, 0, 0], stream_offset = 2,
         stream_open = True\<rparr>
        [\<lparr>byte_offset = 0 + 6, byte_length = 12 - 6 - 4\<rparr>] []
      = (ReturnsTrue,
         \<lparr>read_memory = [0x78, 0xBB, 0, 0, 0, 0, 3, 0, 0, 0, 0, 0], stream_offset = 8,
          stream_open = True\<rparr>, [\<lparr>bit_offset = 48, bit_length = 10\<rparr>])"
    by code_simp
  ultimately show ?thesis by blast
qed


text \<open>
  A zlib extent with a plain header that is shorter than six bytes: the scanner hands on
  to the sub-block locator the extent behind the header whose length is
  \<open>length - 2 - 4\<close> computed with unsigned wrap-around, that is \<open>length + 2 ^ 64 - 6\<close>;
  no check of the size comes before the call. The sub-block locator then seeks and
  leaves through the \<^verbatim>\<open>std::length_error\<close> of \<^verbatim>\<open>resize\<close>.
\<close>

lemma plain_header_short_extent:
  assumes "Seek src (byte_offset zlib) = Some s1"
    and "Read s1 2 = Some (zlib_header, s2)"
    and "zlib_header_len zlib_header = Some header_len"
    and "byte_length zlib < header_len + 4"
  shows "header_len = 2"
    and "LocateDeflatesInZlibBlocks_step puffer src zlib deflates
           = FindDeflateSubBlocks puffer s2
               [\<lparr>byte_offset = byte_offset zlib + header_len,
                 byte_length = byte_length zlib - header_len - 4\<rparr>] deflates"
    and "unat (byte_length zlib - header_len - 4)
           = unat (byte_length zlib) + 2 ^ 64 - unat header_len - 4"
    and "resize (byte_length zlib - header_len - 4) = Some length_error"
    and "Seek s2 (byte_offset zlib + header_len) = Some s3 \<Longrightarrow>
           LocateDeflatesInZlibBlocks_step puffer src zlib deflates
             = (Throws length_error, s3, deflates)"
proof -
  show step: "LocateDeflatesInZlibBlocks_step puffer src zlib deflates
           = FindDeflateSubBlocks puffer s2
               [\<lparr>byte_offset = byte_offset zlib + header_len,
                 byte_length = byte_length zlib - header_len - 4\<rparr>] deflates"
    using assms(1-3)
    by (simp add: LocateDeflatesInZlibBlocks_step_def del: FindDeflateSubBlocks.simps)
  obtain b0 b1 where hdr: "zlib_header = [b0, b1]"
    using Read_two [OF assms(2)] by blast
  with assms(3) show hl: "header_len = 2"
    by (simp add: zlib_header_len_two split: if_splits)
  have short: "unat (byte_length zlib) < 6"
    using assms(4) unfolding hl by (simp add: word_less_nat_alt)
  then show wrap: "unat (byte_length zlib - header_len - 4)
      = unat (byte_length zlib) + 2 ^ 64 - unat header_len - 4"
    unfolding hl
    by (simp add: unat_sub_if_size word_size diff_diff_eq)
  have "unat vector_max_size < unat (byte_length zlib - header_len - 4)"
    using wrap short unfolding hl vector_max_size_def by simp
  then show big: "resize (byte_length zlib - header_len - 4) = Some length_error"
    by (simp add: resize_def word_less_nat_alt)
  show "LocateDeflatesInZlibBlocks_step puffer src zlib deflates
             = (Throws length_error, s3, deflates)"
    if "Seek s2 (byte_offset zlib + header_len) = Some s3"
    unfolding step using that big
    by (simp add: FindDeflateSubBlocks_step_def)
qed

text \<open>
  Claim C10, at the input where the code departs from it. The 8-byte extent below is
  shorter than 10 bytes and its header \<open>78 BB\<close> passes the three header checks with FDICT
  set. The claim has the scanner hand the extent \<open>(6, 8 - 6 - 4)\<close>, of length
  \<open>2 ^ 64 - 2\<close>, to the sub-block locator, which, as the third equation shows, seeks to
  byte 6 and leaves through the \<^verbatim>\<open>std::length_error\<close> of \<^verbatim>\<open>resize\<close>. The scanner instead
  returns \<^verbatim>\<open>false\<close> with the cursor at 2 and hands nothing on: \<^verbatim>\<open>CacheBits(32)\<close> fails
  on the bit cursor, which was built over the two header bytes only.
\<close>

theorem short_fdict_extent_not_passed_on:
  "zlib_header_valid 0x78 0xBB \<and> zlib_FDICT 0xBB
   \<and> (8 :: size_t) < 6 + 4
   \<and> LocateDeflatesInZlibBlocks_step (fixed_bits_puffer 10 7)
        (CreateForRead [0x78, 0xBB, 0, 0, 0, 0, 3, 0])
        \<lparr>byte_offset = 0, byte_length = 8\<rparr> []
      = (ReturnsFalse, \<lparr>read_memory = [0x78, 0xBB, 0, 0, 0, 0, 3, 0], stream_offset = 2,
                        stream_open = True\<rparr>, [])
   \<and> unat (8 - 6 - 4 :: size_t) = 2 ^ 64 - 2
   \<and> FindDeflateSubBlocks (fixed_bits_puffer 10 7)
        \<lparr>read_memory = [0x78, 0xBB, 0, 0, 0, 0, 3, 0], stream_offset = 2, stream_open = True\<rparr>
        [\<lparr>byte_offset = 0 + 6, byte_length = 8 - 6 - 4\<rparr>] []
      = (Throws length_error,
         \<lparr>read_memory = [0x78, 0xBB, 0, 0, 0, 0, 3, 0], stream_offset = 6,
          stream_open = True\<rparr>, [])"
proof -
  have a: "zlib_header_valid 0x78 0xBB"
    by (simp add: zlib_header_valid_def zlib_CM_def zlib_CINFO_def)
  have b: "zlib_FDICT 0xBB"
    by (simp add: zlib_FDICT_def)
  have c: "LocateDeflatesInZlibBlocks_step (fixed_bits_puffer 10 7)
        (CreateForRead [0x78, 0xBB, 0, 0, 0, 0, 3, 0])
        \<lparr>byte_offset = 0, byte_length = 8\<rparr> []
      = (ReturnsFalse, \<lparr>read_memory = [0x78, 0xBB, 0, 0, 0, 0, 3, 0], stream_offset = 2,
                 stream_open = True\<rparr>, [])"
    by code_simp
  have d: "FindDeflateSubBlocks (fixed_bits_puffer 10 7)
        \<lparr>read_memory = [0x78, 0xBB, 0, 0, 0, 0, 3, 0], stream_offset = 2, stream_open = True\<rparr>
        [\<lparr>byte_offset = 0 + 6, byte_length = 8 - 6 - 4\<rparr>] []
      = (Throws length_error,
         \<lparr>read_memory = [0x78, 0xBB, 0, 0, 0, 0, 3, 0], stream_offset = 6,
          stream_open = True\<rparr>, [])"
    by (simp add: FindDeflateSubBlocks_step_def Seek_def resize_def vector_max_size_def)
  show ?thesis
    unfolding c d using a b by simp
qed

section \<open>What a call leaves in the output vector\<close>

lemma Offset_whole_bytes:
  assumes "in_cache_bits r \<le> 8 * buf_index r"
  shows "Offset r = (consumed_bits r + 7) div 8"
proof -
  define q where "q = in_cache_bits r div 8"
  define m where "m = in_cache_bits r mod 8"
  have c: "in_cache_bits r = 8 * q + m" and m: "m < 8"
    by (simp_all add: q_def m_def)
  have "buf_index r * 8 - in_cache_bits r + 7 = (buf_index r - q) * 8 + (7 - m)"
    using assms c m by linarith
  then have "(consumed_bits r + 7) div 8 = buf_index r - q"
    using m by (simp add: consumed_bits_def)
  then show ?thesis
    by (simp add: Offset_def q_def)
qed

lemma FindDeflateSubBlocks_step_prefix:
  "FindDeflateSubBlocks_step puffer src d out = (ok, s', out') \<Longrightarrow> prefix out out'"
  by (auto simp: FindDeflateSubBlocks_step_def split: option.splits if_splits prod.splits)

lemma FindDeflateSubBlocks_prefix:
  "FindDeflateSubBlocks puffer src ds out = (ok, s', out') \<Longrightarrow> prefix out out'"
proof (induction ds arbitrary: src out)
  case Nil
  then show ?case by simp
next
  case (Cons d ds)
  obtain ok1 s1 out1 where step: "FindDeflateSubBlocks_step puffer src d out = (ok1, s1, out1)"
    by (cases "FindDeflateSubBlocks_step puffer src d out") auto
  have p1: "prefix out out1"
    using step by (rule FindDeflateSubBlocks_step_prefix)
  from Cons.prems have res:
    "(if ok1 = ReturnsTrue then FindDeflateSubBlocks puffer s1 ds out1 else (ok1, s1, out1))
       = (ok, s', out')"
    unfolding FindDeflateSubBlocks_Cons [OF step] .
  show ?case
  proof (cases "ok1 = ReturnsTrue")
    case True
    with res have "FindDeflateSubBlocks puffer s1 ds out1 = (ok, s', out')"
      by simp
    then have "prefix out1 out'" by (rule Cons.IH)
    with p1 show ?thesis by (rule prefix_order.trans)
  next
    case False
    with res have "out' = out1" by simp
    with p1 show ?thesis by simp
  qed
qed

lemma LocateDeflatesInZlibBlocks_step_prefix:
  "LocateDeflatesInZlibBlocks_step puffer src z out = (ok, s', out') \<Longrightarrow> prefix out out'"
  by (auto simp: LocateDeflatesInZlibBlocks_step_def simp del: FindDeflateSubBlocks.simps
      split: option.splits dest!: FindDeflateSubBlocks_prefix)

lemma LocateDeflatesInZlibBlocks_prefix:
  "LocateDeflatesInZlibBlocks puffer src zs out = (ok, s', out') \<Longrightarrow> prefix out out'"
proof (induction zs arbitrary: src out)
  case Nil
  then show ?case by simp
next
  case (Cons z zs)
  obtain ok1 s1 out1 where step: "LocateDeflatesInZlibBlocks_step puffer src z out = (ok1, s1, out1)"
    by (cases "LocateDeflatesInZlibBlocks_step puffer src z out") auto
  have p1: "prefix out out1"
    using step by (rule LocateDeflatesInZlibBlocks_step_prefix)
  from Cons.prems have res:
    "(if ok1 = ReturnsTrue then LocateDeflatesInZlibBlocks puffer s1 zs out1
      else (ok1, s1, out1)) = (ok, s', out')"
    unfolding LocateDeflatesInZlibBlocks_Cons [OF step] .
  show ?case
  proof (cases "ok1 = ReturnsTrue")
    case True
    with res have "LocateDeflatesInZlibBlocks puffer s1 zs out1 = (ok, s', out')"
      by simp
    then have "prefix out1 out'" by (rule Cons.IH)
    with p1 show ?thesis by (rule prefix_order.trans)
  next
    case False
    with res have "out' = out1" by simp
    with p1 show ?thesis by simp
  qed
qed

lemma LocateDeflatesInZlibBlocks_append:
  assumes "LocateDeflatesInZlibBlocks puffer src xs out = (ReturnsTrue, s, out')"
  shows "LocateDeflatesInZlibBlocks puffer src (xs @ ys) out
           = LocateDeflatesInZlibBlocks puffer s ys out'"
  using assms
proof (induction xs arbitrary: src out)
  case Nil
  then show ?case by simp
next
  case (Cons x xs)
  obtain ok1 s1 out1 where step: "LocateDeflatesInZlibBlocks_step puffer src x out = (ok1, s1, out1)"
    by (cases "LocateDeflatesInZlibBlocks_step puffer src x out") auto
  from Cons.prems have res:
    "(if ok1 = ReturnsTrue then LocateDeflatesInZlibBlocks puffer s1 xs out1
      else (ok1, s1, out1)) = (ReturnsTrue, s, out')"
    unfolding LocateDeflatesInZlibBlocks_Cons [OF step] .
  then have ok1: "ok1 = ReturnsTrue"
    by (simp split: if_splits)
  with res have rest: "LocateDeflatesInZlibBlocks puffer s1 xs out1 = (ReturnsTrue, s, out')"
    by simp
  have "LocateDeflatesInZlibBlocks puffer src ((x # xs) @ ys) out
          = LocateDeflatesInZlibBlocks puffer s1 (xs @ ys) out1"
    using LocateDeflatesInZlibBlocks_Cons [OF step, of "xs @ ys"] ok1 by simp
  also have "\<dots> = LocateDeflatesInZlibBlocks puffer s ys out'"
    using rest by (rule Cons.IH)
  finally show ?case .
qed

lemma LocateDeflatesInZlibBlocks_memory:
  "LocateDeflatesInZlibBlocks puffer src zs out = (ok, s', out') \<Longrightarrow>
     read_memory s' = read_memory src"
proof (induction zs arbitrary: src out)
  case Nil
  then show ?case by simp
next
  case (Cons z zs)
  obtain ok1 s1 out1 where step: "LocateDeflatesInZlibBlocks_step puffer src z out = (ok1, s1, out1)"
    by (cases "LocateDeflatesInZlibBlocks_step puffer src z out") auto
  have m1: "read_memory s1 = read_memory src"
    using step by (rule LocateDeflatesInZlibBlocks_step_memory)
  from Cons.prems have res:
    "(if ok1 = ReturnsTrue then LocateDeflatesInZlibBlocks puffer s1 zs out1
      else (ok1, s1, out1)) = (ok, s', out')"
    unfolding LocateDeflatesInZlibBlocks_Cons [OF step] .
  show ?case
  proof (cases "ok1 = ReturnsTrue")
    case True
    with res have "LocateDeflatesInZlibBlocks puffer s1 zs out1 = (ok, s', out')"
      by simp
    then have "read_memory s' = read_memory s1" by (rule Cons.IH)
    with m1 show ?thesis by simp
  next
    case False
    with res have "s' = s1" by simp
    with m1 show ?thesis by simp
  qed
qed

lemma LocateDeflatesInZlibBlocks_step_bad_header:
  assumes "\<not> zlib_extent_header_valid (read_memory src) z"
  shows "\<exists>s'. LocateDeflatesInZlibBlocks_step puffer src z out = (ReturnsFalse, s', out)"
proof (cases "Seek src (byte_offset z)")
  case None
  then show ?thesis by (simp add: LocateDeflatesInZlibBlocks_step_def)
next
  case (Some s1)
  show ?thesis
  proof (cases "Read s1 2")
    case None
    with Some show ?thesis by (simp add: LocateDeflatesInZlibBlocks_step_def)
  next
    case (Some a)
    obtain hdr s2 where a: "a = (hdr, s2)" by (cases a)
    from Seek_Some [OF \<open>Seek src (byte_offset z) = Some s1\<close>]
    have s1: "s1 = src\<lparr>stream_offset := unat (byte_offset z)\<rparr>" by simp
    have rd: "Read s1 2 = Some (hdr, s2)" using Some a by simp
    from Read_Some [OF rd] s1 have
      len: "unat (byte_offset z) + 2 \<le> length (read_memory src)" by simp
    from Read_two [OF rd] s1 have hdr: "hdr = [read_memory src ! unat (byte_offset z),
        read_memory src ! (unat (byte_offset z) + 1)]" by simp
    have "zlib_header_len hdr = None"
      using assms len unfolding hdr zlib_header_len_two zlib_extent_header_valid_def
      by simp
    with rd \<open>Seek src (byte_offset z) = Some s1\<close> show ?thesis
      by (simp add: LocateDeflatesInZlibBlocks_step_def)
  qed
qed

lemma two_zlib_memory_first:
  "LocateDeflatesInZlibBlocks (fixed_bits_puffer 10 7)
        (CreateForRead [0x78, 0x9C, 3, 0, 0, 0, 0, 0, 0x75, 0x9C, 3, 0, 0, 0, 0, 0])
        [\<lparr>byte_offset = 0, byte_length = 8\<rparr>] []
      = (ReturnsTrue,
         \<lparr>read_memory = [0x78, 0x9C, 3, 0, 0, 0, 0, 0, 0x75, 0x9C, 3, 0, 0, 0, 0, 0],
          stream_offset = 4, stream_open = True\<rparr>,
         [\<lparr>bit_offset = 16, bit_length = 10\<rparr>])"
  by code_simp

lemma two_zlib_memory_second:
  "\<not> zlib_extent_header_valid [0x78, 0x9C, 3, 0, 0, 0, 0, 0, 0x75, 0x9C, 3, 0, 0, 0, 0, 0]
        \<lparr>byte_offset = 8, byte_length = 8\<rparr>"
  by (simp add: zlib_extent_header_valid_def zlib_header_valid_def zlib_CM_def)

lemma two_zlib_memory_alone:
  "LocateDeflatesInZlibBlocks (fixed_bits_puffer 10 7)
        (CreateForRead [0x78, 0x9C, 3, 0, 0, 0, 0, 0, 0x75, 0x9C, 3, 0, 0, 0, 0, 0])
        [\<lparr>byte_offset = 8, byte_length = 8\<rparr>] []
      = (ReturnsFalse,
         \<lparr>read_memory = [0x78, 0x9C, 3, 0, 0, 0, 0, 0, 0x75, 0x9C, 3, 0, 0, 0, 0, 0],
          stream_offset = 10, stream_open = True\<rparr>, [])"
  by code_simp

text \<open>
  A list whose first extent has a valid header and only four bytes, and whose second
  extent has a header with CM = 5: the call is left through the exception of the first
  extent and never reads the second header.
\<close>

lemma short_extent_before_bad_header:
  "\<not> zlib_extent_header_valid [0x78, 0x9C, 0, 0, 0x75, 0x9C, 0, 0, 0, 0, 0, 0]
        \<lparr>byte_offset = 4, byte_length = 8\<rparr>"
  "LocateDeflatesInZlibBlocks (fixed_bits_puffer 10 7)
        (CreateForRead [0x78, 0x9C, 0, 0, 0x75, 0x9C, 0, 0, 0, 0, 0, 0])
        [\<lparr>byte_offset = 0, byte_length = 4\<rparr>, \<lparr>byte_offset = 4, byte_length = 8\<rparr>] []
      = (Throws length_error,
         \<lparr>read_memory = [0x78, 0x9C, 0, 0, 0x75, 0x9C, 0, 0, 0, 0, 0, 0],
          stream_offset = 2, stream_open = True\<rparr>, [])"
  by (simp add: zlib_extent_header_valid_def zlib_header_valid_def zlib_CM_def, code_simp)

section \<open>Claims about the deflate sub-block locator\<close>

text \<open>
  Claim C8 as stated fails in its second half: the check of line 162 does not ask for
  \<open>extent.length * 8\<close> consumed bits. On the two-byte payload \<open>03 00\<close> the codec consumes
  10 bits, not 16, and the call succeeds, because \<^verbatim>\<open>Offset()\<close> counts the partly read
  second byte.
\<close>

theorem partial_last_byte_accepted:
  "fixed_bits_puffer 10 7 (BufferBitReader_new [3, 0])
     = Some (\<lparr>in_buf = [3, 0], buf_index = 2, in_cache = 0, in_cache_bits = 6\<rparr>, 7,
             [\<lparr>bit_offset = 0, bit_length = 10\<rparr>])
   \<and> consumed_bits \<lparr>in_buf = [3, 0], buf_index = 2, in_cache = 0, in_cache_bits = 6\<rparr> = 10
   \<and> 10 \<noteq> unat (byte_length \<lparr>byte_offset = 0, byte_length = 2\<rparr>) * 8
   \<and> FindDeflateSubBlocks (fixed_bits_puffer 10 7) (CreateForRead [3, 0])
         [\<lparr>byte_offset = 0, byte_length = 2\<rparr>] []
       = (ReturnsTrue, \<lparr>read_memory = [3, 0], stream_offset = 2, stream_open = True\<rparr>,
          [\<lparr>bit_offset = 0, bit_length = 10\<rparr>])"
proof -
  have "fixed_bits_puffer 10 7 (BufferBitReader_new [3, 0])
     = Some (\<lparr>in_buf = [3, 0], buf_index = 2, in_cache = 0, in_cache_bits = 6\<rparr>, 7,
             [\<lparr>bit_offset = 0, bit_length = 10\<rparr>])"
    by code_simp
  moreover have "FindDeflateSubBlocks (fixed_bits_puffer 10 7) (CreateForRead [3, 0])
         [\<lparr>byte_offset = 0, byte_length = 2\<rparr>] []
       = (ReturnsTrue, \<lparr>read_memory = [3, 0], stream_offset = 2, stream_open = True\<rparr>,
          [\<lparr>bit_offset = 0, bit_length = 10\<rparr>])"
    by code_simp
  ultimately show ?thesis
    by (simp add: consumed_bits_def)
qed

text \<open>
  Claim C8, amended. For every deflate byte extent that \<^verbatim>\<open>FindDeflateSubBlocks\<close> reads
  and the codec transcodes, every sub-block bit extent returned by the codec is emitted
  with its offset increased by \<open>extent.offset * 8\<close> and its length unchanged, and the
  call returns \<^verbatim>\<open>false\<close>, emitting nothing for this extent and reading no later extent,
  unless the byte offset of the bit cursor equals \<open>extent.length\<close>. That offset is the
  number of bytes read, a partly consumed byte counted whole: for a cursor that caches no
  more bits than it has loaded it is the consumed bit count divided by 8 and rounded up.
  An extent longer than a vector can be is not read: the call leaves through the
  \<^verbatim>\<open>std::length_error\<close> of \<^verbatim>\<open>resize\<close>, after the seek.
\<close>

theorem FindDeflateSubBlocks_extent:
  assumes "Seek src (byte_offset deflate) = Some s1"
    and "Read s1 (byte_length deflate) = Some (deflate_buffer, s2)"
    and "puffer (BufferBitReader_new deflate_buffer) = Some (bit_reader, puff_size, subblocks)"
  shows "FindDeflateSubBlocks puffer src (deflate # deflates) subblock_deflates =
           (if resize (byte_length deflate) = None
            then
              if byte_length deflate = of_nat (Offset bit_reader)
              then FindDeflateSubBlocks puffer s2 deflates
                     (subblock_deflates @
                      map (\<lambda>subblock. \<lparr>bit_offset = bit_offset subblock + byte_offset deflate * 8,
                                         bit_length = bit_length subblock\<rparr>) subblocks)
              else (ReturnsFalse, s2, subblock_deflates)
            else (Throws length_error, s1, subblock_deflates))
         \<and> (in_cache_bits bit_reader \<le> 8 * buf_index bit_reader \<longrightarrow>
              Offset bit_reader = (consumed_bits bit_reader + 7) div 8)"
proof (cases "resize (byte_length deflate)")
  case None
  with assms show ?thesis
    by (simp add: FindDeflateSubBlocks_step_def Offset_whole_bytes)
next
  case (Some e)
  then have "e = length_error" by (cases e)
  with Some assms show ?thesis
    by (simp add: FindDeflateSubBlocks_step_def Offset_whole_bytes)
qed

text \<open>
  A run of claim C8 as amended: the payload \<open>03 00\<close> at byte 1 of a stream; the block the
  codec reports at bit 0 is emitted at bit 8.
\<close>

theorem FindDeflateSubBlocks_extent_witness:
  "Seek (CreateForRead [0, 3, 0]) (byte_offset \<lparr>byte_offset = 1, byte_length = 2\<rparr>)
     = Some \<lparr>read_memory = [0, 3, 0], stream_offset = 1, stream_open = True\<rparr>
   \<and> Read \<lparr>read_memory = [0, 3, 0], stream_offset = 1, stream_open = True\<rparr>
        (byte_length \<lparr>byte_offset = 1, byte_length = 2\<rparr>)
     = Some ([3, 0], \<lparr>read_memory = [0, 3, 0], stream_offset = 3, stream_open = True\<rparr>)
   \<and> fixed_bits_puffer 10 7 (BufferBitReader_new [3, 0])
     = Some (\<lparr>in_buf = [3, 0], buf_index = 2, in_cache = 0, in_cache_bits = 6\<rparr>, 7,
             [\<lparr>bit_offset = 0, bit_length = 10\<rparr>])
   \<and> resize (byte_length \<lparr>byte_offset = 1, byte_length = 2\<rparr>) = None
   \<and> FindDeflateSubBlocks (fixed_bits_puffer 10 7) (CreateForRead [0, 3, 0])
         [\<lparr>byte_offset = 1, byte_length = 2\<rparr>] []
       = (ReturnsTrue, \<lparr>read_memory = [0, 3, 0], stream_offset = 3, stream_open = True\<rparr>,
          [\<lparr>bit_offset = 8, bit_length = 10\<rparr>])
   \<and> in_cache_bits \<lparr>in_buf = [3, 0], buf_index = 2, in_cache = 0, in_cache_bits = 6\<rparr>
       \<le> 8 * buf_index \<lparr>in_buf = [3, 0], buf_index = 2, in_cache = 0, in_cache_bits = 6\<rparr>
   \<and> Offset \<lparr>in_buf = [3, 0], buf_index = 2, in_cache = 0, in_cache_bits = 6\<rparr> = (10 + 7) div 8"
proof -
  have h1: "Seek (CreateForRead [0, 3, 0]) (byte_offset \<lparr>byte_offset = 1, byte_length = 2\<rparr>)
     = Some \<lparr>read_memory = [0, 3, 0], stream_offset = 1, stream_open = True\<rparr>"
    by (simp add: Seek_def CreateForRead_def)
  have h2: "Read \<lparr>read_memory = [0, 3, 0], stream_offset = 1, stream_open = True\<rparr>
        (byte_length \<lparr>byte_offset = 1, byte_length = 2\<rparr>)
     = Some ([3, 0], \<lparr>read_memory = [0, 3, 0], stream_offset = 3, stream_open = True\<rparr>)"
    by (simp add: Read_def)
  have h3: "fixed_bits_puffer 10 7 (BufferBitReader_new [3, 0])
     = Some (\<lparr>in_buf = [3, 0], buf_index = 2, in_cache = 0, in_cache_bits = 6\<rparr>, 7,
             [\<lparr>bit_offset = 0, bit_length = 10\<rparr>])"
    by code_simp
  have h4: "resize (byte_length \<lparr>byte_offset = 1, byte_length = 2\<rparr>) = None"
    by (simp add: resize_def vector_max_size_def)
  show ?thesis
    using FindDeflateSubBlocks_extent [where puffer = "fixed_bits_puffer 10 7"
        and deflates = "[]" and subblock_deflates = "[]", OF h1 h2 h3] h1 h2 h3 h4
    by (simp add: Offset_def consumed_bits_def)
qed

section \<open>Claims about failed calls of the zlib container scanner\<close>

text \<open>
  Claim C9 as stated fails: a failed call does not leave the output list as it was at
  entry. Below the first extent is a valid zlib block, the header of the second has
  CM = 5; the call returns \<^verbatim>\<open>false\<close> and the list holds the sub-block of the first.
\<close>

theorem zlib_partial_results_exposed:
  "\<not> zlib_extent_header_valid [0x78, 0x9C, 3, 0, 0, 0, 0, 0, 0x75, 0x9C, 3, 0, 0, 0, 0, 0]
        \<lparr>byte_offset = 8, byte_length = 8\<rparr>
   \<and> LocateDeflatesInZlibBlocks (fixed_bits_puffer 10 7)
        (CreateForRead [0x78, 0x9C, 3, 0, 0, 0, 0, 0, 0x75, 0x9C, 3, 0, 0, 0, 0, 0])
        [\<lparr>byte_offset = 0, byte_length = 8\<rparr>, \<lparr>byte_offset = 8, byte_length = 8\<rparr>] []
      = (ReturnsFalse,
         \<lparr>read_memory = [0x78, 0x9C, 3, 0, 0, 0, 0, 0, 0x75, 0x9C, 3, 0, 0, 0, 0, 0],
          stream_offset = 10, stream_open = True\<rparr>,
         [\<lparr>bit_offset = 16, bit_length = 10\<rparr>])
   \<and> [\<lparr>bit_offset = 16, bit_length = 10\<rparr>] \<noteq> []"
proof -
  have "LocateDeflatesInZlibBlocks (fixed_bits_puffer 10 7)
        (CreateForRead [0x78, 0x9C, 3, 0, 0, 0, 0, 0, 0x75, 0x9C, 3, 0, 0, 0, 0, 0])
        [\<lparr>byte_offset = 0, byte_length = 8\<rparr>, \<lparr>byte_offset = 8, byte_length = 8\<rparr>] []
      = (ReturnsFalse,
         \<lparr>read_memory = [0x78, 0x9C, 3, 0, 0, 0, 0, 0, 0x75, 0x9C, 3, 0, 0, 0, 0, 0],
          stream_offset = 10, stream_open = True\<rparr>,
         [\<lparr>bit_offset = 16, bit_length = 10\<rparr>])"
    by code_simp
  with two_zlib_memory_second show ?thesis by simp
qed

text \<open>
  Claim C9, amended. If the header check fails for an extent of the list given to
  \<^verbatim>\<open>LocateDeflatesInZlibBlocks\<close>, the call does not return \<^verbatim>\<open>true\<close>, wherever in the list
  the extent stands: it returns \<^verbatim>\<open>false\<close>, unless an earlier extent makes it leave
  through an exception. When the extents before the failing one were
  processed successfully, the call returns \<^verbatim>\<open>false\<close> at it, processes no later extent,
  and leaves in the output list exactly what the earlier extents put there: the entries
  of the list at entry followed by the sub-block extents of the earlier extents. Nothing
  is rolled back.
\<close>

theorem zlib_failure_keeps_earlier_results:
  assumes "LocateDeflatesInZlibBlocks puffer src earlier deflates = (ReturnsTrue, s1, out1)"
    and "\<not> zlib_extent_header_valid (read_memory src) zlib"
  shows "(\<exists>s'. LocateDeflatesInZlibBlocks puffer src (earlier @ zlib # later) deflates
                 = (ReturnsFalse, s', out1))
         \<and> prefix deflates out1
         \<and> (zlib \<in> set zlibs \<longrightarrow>
              fst (LocateDeflatesInZlibBlocks puffer src zlibs deflates) \<noteq> ReturnsTrue)"
proof -
  have mem: "read_memory s1 = read_memory src"
    using assms(1) by (rule LocateDeflatesInZlibBlocks_memory)
  obtain s' where step: "LocateDeflatesInZlibBlocks_step puffer s1 zlib out1 = (ReturnsFalse, s', out1)"
    using LocateDeflatesInZlibBlocks_step_bad_header [of s1 zlib puffer out1] assms(2) mem
    by auto
  have "LocateDeflatesInZlibBlocks puffer src (earlier @ zlib # later) deflates
          = LocateDeflatesInZlibBlocks puffer s1 (zlib # later) out1"
    using assms(1) by (rule LocateDeflatesInZlibBlocks_append)
  also have "\<dots> = (ReturnsFalse, s', out1)"
    unfolding LocateDeflatesInZlibBlocks_Cons [OF step] by simp
  finally have "LocateDeflatesInZlibBlocks puffer src (earlier @ zlib # later) deflates
                 = (ReturnsFalse, s', out1)" .
  moreover have "prefix deflates out1"
    using assms(1) by (rule LocateDeflatesInZlibBlocks_prefix)
  moreover have "fst (LocateDeflatesInZlibBlocks puffer src zlibs deflates) \<noteq> ReturnsTrue"
    if "zlib \<in> set zlibs"
  proof -
    obtain ok2 s2 out2 where
      r: "LocateDeflatesInZlibBlocks puffer src zlibs deflates = (ok2, s2, out2)"
      by (cases "LocateDeflatesInZlibBlocks puffer src zlibs deflates") auto
    have "ok2 \<noteq> ReturnsTrue"
    proof
      assume "ok2 = ReturnsTrue"
      with r have "LocateDeflatesInZlibBlocks puffer src zlibs deflates = (ReturnsTrue, s2, out2)"
        by simp
      from LocateDeflatesInZlibBlocks_headers [OF this] that assms(2) show False
        by blast
    qed
    with r show ?thesis by simp
  qed
  ultimately show ?thesis by blast
qed

text \<open>
  A run of claim C9 as amended, on the stream of the counterexample; the list of the
  second extent alone returns \<^verbatim>\<open>false\<close>.
\<close>

theorem zlib_failure_keeps_earlier_results_witness:
  "LocateDeflatesInZlibBlocks (fixed_bits_puffer 10 7)
        (CreateForRead [0x78, 0x9C, 3, 0, 0, 0, 0, 0, 0x75, 0x9C, 3, 0, 0, 0, 0, 0])
        [\<lparr>byte_offset = 0, byte_length = 8\<rparr>] []
      = (ReturnsTrue,
         \<lparr>read_memory = [0x78, 0x9C, 3, 0, 0, 0, 0, 0, 0x75, 0x9C, 3, 0, 0, 0, 0, 0],
          stream_offset = 4, stream_open = True\<rparr>,
         [\<lparr>bit_offset = 16, bit_length = 10\<rparr>])
   \<and> \<not> zlib_extent_header_valid
         (read_memory (CreateForRead [0x78, 0x9C, 3, 0, 0, 0, 0, 0, 0x75, 0x9C, 3, 0, 0, 0, 0, 0]))
         \<lparr>byte_offset = 8, byte_length = 8\<rparr>
   \<and> (\<exists>s'. LocateDeflatesInZlibBlocks (fixed_bits_puffer 10 7)
          (CreateForRead [0x78, 0x9C, 3, 0, 0, 0, 0, 0, 0x75, 0x9C, 3, 0, 0, 0, 0, 0])
          ([\<lparr>byte_offset = 0, byte_length = 8\<rparr>] @ \<lparr>byte_offset = 8, byte_length = 8\<rparr> # []) []
        = (ReturnsFalse, s', [\<lparr>bit_offset = 16, bit_length = 10\<rparr>]))
   \<and> prefix [] [\<lparr>bit_offset = 16, bit_length = 10\<rparr>]
   \<and> \<lparr>byte_offset = 8, byte_length = 8\<rparr> \<in> set [\<lparr>byte_offset = 8, byte_length = 8\<rparr>]
   \<and> fst (LocateDeflatesInZlibBlocks (fixed_bits_puffer 10 7)
          (CreateForRead [0x78, 0x9C, 3, 0, 0, 0, 0, 0, 0x75, 0x9C, 3, 0, 0, 0, 0, 0])
          [\<lparr>byte_offset = 8, byte_length = 8\<rparr>] []) = ReturnsFalse"
proof -
  have h2: "\<not> zlib_extent_header_valid
         (read_memory (CreateForRead [0x78, 0x9C, 3, 0, 0, 0, 0, 0, 0x75, 0x9C, 3, 0, 0, 0, 0, 0]))
         \<lparr>byte_offset = 8, byte_length = 8\<rparr>"
    using two_zlib_memory_second by (simp add: CreateForRead_def)
  note w = zlib_failure_keeps_earlier_results [OF two_zlib_memory_first h2,
        of "[]" "[\<lparr>byte_offset = 8, byte_length = 8\<rparr>]"]
  from w have w1: "\<exists>s'. LocateDeflatesInZlibBlocks (fixed_bits_puffer 10 7)
          (CreateForRead [0x78, 0x9C, 3, 0, 0, 0, 0, 0, 0x75, 0x9C, 3, 0, 0, 0, 0, 0])
          ([\<lparr>byte_offset = 0, byte_length = 8\<rparr>] @ \<lparr>byte_offset = 8, byte_length = 8\<rparr> # []) []
        = (ReturnsFalse, s', [\<lparr>bit_offset = 16, bit_length = 10\<rparr>])"
    by blast
  from w have w2: "prefix [] [\<lparr>bit_offset = 16, bit_length = 10\<rparr>]"
    by blast
  have w3: "fst (LocateDeflatesInZlibBlocks (fixed_bits_puffer 10 7)
          (CreateForRead [0x78, 0x9C, 3, 0, 0, 0, 0, 0, 0x75, 0x9C, 3, 0, 0, 0, 0, 0])
          [\<lparr>byte_offset = 8, byte_length = 8\<rparr>] []) = ReturnsFalse"
    unfolding two_zlib_memory_alone by simp
  have w4: "\<lparr>byte_offset = 8, byte_length = 8\<rparr> \<in> set [\<lparr>byte_offset = 8, byte_length = 8\<rparr>]"
    by simp
  from two_zlib_memory_first h2 w1 w2 w4 w3 show ?thesis
    by blast
qed

section \<open>The loop of the puff-location mapper\<close>

lemma FindPuffLocations_loop_Cons:
  assumes "FindPuffLocations_step puffer src prev d puffs diff gaps = (ok1, s1, puffs1, diff1, gaps1)"
  shows "FindPuffLocations_loop puffer src prev (d # ds) puffs diff gaps
           = (if ok1 = ReturnsTrue
              then FindPuffLocations_loop puffer s1 (Some d) ds puffs1 diff1 gaps1
              else (ok1, s1, puffs1, diff1, gaps1))"
  using assms by (cases ok1) simp_all

lemma FindPuffLocations_step_True:
  assumes "FindPuffLocations_step puffer src prev d puffs diff gaps
             = (ReturnsTrue, s, puffs1, diff1, gaps1)"
  shows "\<exists>puff. puffs1 = puffs @ [puff]
           \<and> byte_offset puff
               = (bit_offset d + 7) div 8 - of_int (FindPuffLocations_gap prev d) + diff
           \<and> diff1 = diff + (byte_length puff - deflate_length_in_bytes d
                              - of_int (FindPuffLocations_gap prev d))"
    and "gaps1 = gaps @ [FindPuffLocations_gap prev d]"
    and "read_memory s = read_memory src" and "stream_open s = stream_open src"
  using assms
  by (auto simp: FindPuffLocations_step_def Let_def deflate_length_in_bytes_def
      split: option.splits if_splits prod.splits dest!: Seek_Some Read_Some)

lemma FindPuffLocations_step_not_True:
  assumes "FindPuffLocations_step puffer src prev d puffs diff gaps = (ok, s, puffs1, diff1, gaps1)"
    and "ok \<noteq> ReturnsTrue"
  shows "puffs1 = puffs" and "diff1 = diff" and "gaps1 = gaps"
  using assms
  by (auto simp: FindPuffLocations_step_def Let_def
      split: option.splits if_splits prod.splits)

lemma FindPuffLocations_loop_gaps:
  "FindPuffLocations_loop puffer src prev ds puffs diff gaps0 = (ok, s', puffs', diff', gaps) \<Longrightarrow>
   \<exists>new. gaps = gaps0 @ new \<and> length new \<le> length ds
     \<and> (ok = ReturnsTrue \<longrightarrow> length new = length ds)
     \<and> (\<forall>i<length new. new ! i
           = FindPuffLocations_gap (if i = 0 then prev else Some (ds ! (i - 1))) (ds ! i))"
proof (induction ds arbitrary: src prev puffs diff gaps0)
  case Nil
  then show ?case by simp
next
  case (Cons d ds)
  obtain ok1 s1 puffs1 diff1 gaps1 where
    step: "FindPuffLocations_step puffer src prev d puffs diff gaps0
             = (ok1, s1, puffs1, diff1, gaps1)"
    by (cases "FindPuffLocations_step puffer src prev d puffs diff gaps0") auto
  from Cons.prems have res:
    "(if ok1 = ReturnsTrue
      then FindPuffLocations_loop puffer s1 (Some d) ds puffs1 diff1 gaps1
      else (ok1, s1, puffs1, diff1, gaps1)) = (ok, s', puffs', diff', gaps)"
    unfolding FindPuffLocations_loop_Cons [OF step] .
  show ?case
  proof (cases "ok1 = ReturnsTrue")
    case False
    with res have "ok = ok1" "gaps = gaps1" by simp_all
    moreover have "gaps1 = gaps0"
      using step False by (rule FindPuffLocations_step_not_True)
    ultimately show ?thesis
      using False by (intro exI [of _ "[]"]) simp
  next
    case True
    define gap where "gap = FindPuffLocations_gap prev d"
    have g1: "gaps1 = gaps0 @ [gap]"
      using FindPuffLocations_step_True(2) [OF step [unfolded True]] by (simp add: gap_def)
    from res True have
      "FindPuffLocations_loop puffer s1 (Some d) ds puffs1 diff1 gaps1
         = (ok, s', puffs', diff', gaps)"
      by simp
    from Cons.IH [OF this] obtain new where new: "gaps = gaps1 @ new"
      "length new \<le> length ds" "ok = ReturnsTrue \<longrightarrow> length new = length ds"
      "\<forall>i<length new. new ! i
           = FindPuffLocations_gap (if i = 0 then Some d else Some (ds ! (i - 1))) (ds ! i)"
      by blast
    have "\<forall>i<length (gap # new). (gap # new) ! i
           = FindPuffLocations_gap (if i = 0 then prev else Some ((d # ds) ! (i - 1))) ((d # ds) ! i)"
    proof (intro allI impI)
      fix i assume i: "i < length (gap # new)"
      show "(gap # new) ! i
           = FindPuffLocations_gap (if i = 0 then prev else Some ((d # ds) ! (i - 1))) ((d # ds) ! i)"
      proof (cases i)
        case 0
        then show ?thesis by (simp add: gap_def)
      next
        case (Suc j)
        with i new(4) show ?thesis by (cases j) auto
      qed
    qed
    with new(1-3) g1 show ?thesis
      by (intro exI [of _ "gap # new"]) simp
  qed
qed

lemma gap_law_eq:
  "gap_law deflates i
     = FindPuffLocations_gap (if i = 0 then None else Some (deflates ! (i - 1))) (deflates ! i)"
  by (simp add: gap_law_def FindPuffLocations_gap_def)

lemma gap_from_Cons_Suc: "gap_from prev (d # ds) (Suc i) = gap_from (Some d) ds i"
  by (cases i) (simp_all add: gap_from_def)

lemma gap_from_Cons_0: "gap_from prev (d # ds) 0 = FindPuffLocations_gap prev d"
  by (simp add: gap_from_def)

lemma gap_from_None: "gap_from None deflates i = gap_law deflates i"
  by (simp add: gap_from_def gap_law_eq)

lemma FindPuffLocations_loop_success:
  "FindPuffLocations_loop puffer src prev ds puffs0 diff0 gaps0 = (ReturnsTrue, s', puffs', diff', gaps') \<Longrightarrow>
   \<exists>news. puffs' = puffs0 @ news \<and> length news = length ds
     \<and> read_memory s' = read_memory src \<and> stream_open s' = stream_open src
     \<and> (\<forall>k<length ds.
           byte_offset (news ! k)
             = (bit_offset (ds ! k) + 7) div 8 - of_int (gap_from prev ds k)
               + (diff0 + (\<Sum>i<k. byte_length (news ! i) - deflate_length_in_bytes (ds ! i)
                                  - of_int (gap_from prev ds i))))
     \<and> diff' = diff0 + (\<Sum>i<length ds. byte_length (news ! i) - deflate_length_in_bytes (ds ! i)
                                       - of_int (gap_from prev ds i))"
proof (induction ds arbitrary: src prev puffs0 diff0 gaps0)
  case Nil
  then show ?case by simp
next
  case (Cons d ds)
  obtain ok1 s puffs1 diff1 gaps1 where
    step0: "FindPuffLocations_step puffer src prev d puffs0 diff0 gaps0
             = (ok1, s, puffs1, diff1, gaps1)"
    by (cases "FindPuffLocations_step puffer src prev d puffs0 diff0 gaps0") auto
  from Cons.prems have res:
    "(if ok1 = ReturnsTrue
      then FindPuffLocations_loop puffer s (Some d) ds puffs1 diff1 gaps1
      else (ok1, s, puffs1, diff1, gaps1)) = (ReturnsTrue, s', puffs', diff', gaps')"
    unfolding FindPuffLocations_loop_Cons [OF step0] .
  then have ok1: "ok1 = ReturnsTrue"
    by (simp split: if_splits)
  show ?case
  proof -
    have step: "FindPuffLocations_step puffer src prev d puffs0 diff0 gaps0
             = (ReturnsTrue, s, puffs1, diff1, gaps1)"
      using step0 ok1 by simp
    define gap where "gap = FindPuffLocations_gap prev d"
    from FindPuffLocations_step_True(1) [OF step] obtain puff where
      p1: "puffs1 = puffs0 @ [puff]"
      and f2: "byte_offset puff = (bit_offset d + 7) div 8 - of_int gap + diff0"
      and f3: "diff1 = diff0 + (byte_length puff - deflate_length_in_bytes d - of_int gap)"
      unfolding gap_def by blast
    have f1: "gap = FindPuffLocations_gap prev d"
      by (simp add: gap_def)
    note f45 = FindPuffLocations_step_True(3,4) [OF step]
    note facts = f1 f2 f3 f45
    from res ok1 p1 have
      "FindPuffLocations_loop puffer s (Some d) ds (puffs0 @ [puff]) diff1 gaps1
         = (ReturnsTrue, s', puffs', diff', gaps')"
      by simp
    from Cons.IH [OF this] obtain news where news: "puffs' = (puffs0 @ [puff]) @ news"
      "length news = length ds"
      "read_memory s' = read_memory s" "stream_open s' = stream_open s"
      and offs: "\<forall>k<length ds.
           byte_offset (news ! k)
             = (bit_offset (ds ! k) + 7) div 8 - of_int (gap_from (Some d) ds k)
               + (diff1 + (\<Sum>i<k. byte_length (news ! i) - deflate_length_in_bytes (ds ! i)
                                  - of_int (gap_from (Some d) ds i)))"
      and diff': "diff' = diff1 + (\<Sum>i<length ds. byte_length (news ! i) - deflate_length_in_bytes (ds ! i)
                                       - of_int (gap_from (Some d) ds i))"
      by blast
    let ?f = "\<lambda>i. byte_length ((puff # news) ! i) - deflate_length_in_bytes ((d # ds) ! i)
                 - of_int (gap_from prev (d # ds) i)"
    have f0: "?f 0 = byte_length puff - deflate_length_in_bytes d - of_int gap"
      by (simp add: gap_from_Cons_0 facts(1))
    have fS: "?f (Suc i) = byte_length (news ! i) - deflate_length_in_bytes (ds ! i)
                 - of_int (gap_from (Some d) ds i)" for i
      by (simp add: gap_from_Cons_Suc)
    have sumS: "(\<Sum>i<Suc k. ?f i) = (byte_length puff - deflate_length_in_bytes d - of_int gap)
        + (\<Sum>i<k. byte_length (news ! i) - deflate_length_in_bytes (ds ! i)
                 - of_int (gap_from (Some d) ds i))" for k
      unfolding sum.lessThan_Suc_shift f0 fS ..
    have "byte_offset ((puff # news) ! k)
             = (bit_offset ((d # ds) ! k) + 7) div 8 - of_int (gap_from prev (d # ds) k)
               + (diff0 + (\<Sum>i<k. ?f i))" if "k < length (d # ds)" for k
    proof (cases k)
      case 0
      then show ?thesis
        using facts(2) by (simp add: gap_from_Cons_0 facts(1) [symmetric])
    next
      case (Suc j)
      with that have "j < length ds" by simp
      with offs have "byte_offset (news ! j)
             = (bit_offset (ds ! j) + 7) div 8 - of_int (gap_from (Some d) ds j)
               + (diff1 + (\<Sum>i<j. byte_length (news ! i) - deflate_length_in_bytes (ds ! i)
                                  - of_int (gap_from (Some d) ds i)))"
        by simp
      then show ?thesis
        unfolding Suc sumS facts(3) by (simp add: gap_from_Cons_Suc)
    qed
    moreover have "diff' = diff0 + (\<Sum>i<length (d # ds). ?f i)"
      unfolding length_Cons sumS diff' facts(3) by (simp add: algebra_simps)
    ultimately show ?thesis
      using news facts(4,5) by (intro exI [of _ "puff # news"]) simp
  qed
qed

lemma GetSize_Some: "GetSize s = Some n \<Longrightarrow> stream_open s \<and> n = buffer_size (read_memory s)"
  by (auto simp: GetSize_def split: if_splits)

lemma run_shared_byte:
  "FindPuffLocations_loop (fixed_bits_puffer 12 5) (CreateForRead [0, 0, 0, 0, 0]) None
     [\<lparr>bit_offset = 0, bit_length = 12\<rparr>, \<lparr>bit_offset = 12, bit_length = 12\<rparr>] [] 0 []
   = (ReturnsTrue, \<lparr>read_memory = [0, 0, 0, 0, 0], stream_offset = 3, stream_open = True\<rparr>,
      [\<lparr>byte_offset = 0, byte_length = 5\<rparr>, \<lparr>byte_offset = 5, byte_length = 5\<rparr>], 7, [0, 1])"
  by code_simp

lemma run_overlapping:
  "FindPuffLocations_loop (fixed_bits_puffer 16 0) (CreateForRead [0, 0]) None
     [\<lparr>bit_offset = 0, bit_length = 16\<rparr>, \<lparr>bit_offset = 0, bit_length = 16\<rparr>] [] 0 []
   = (ReturnsTrue, \<lparr>read_memory = [0, 0], stream_offset = 2, stream_open = True\<rparr>,
      [\<lparr>byte_offset = 0, byte_length = 0\<rparr>, \<lparr>byte_offset = - 2, byte_length = 0\<rparr>], - 4, [0, 0])"
  by code_simp

lemma run_100_120:
  "FindPuffLocations_loop (whole_buffer_puffer 5) (CreateForRead (replicate 17 0)) None
     [\<lparr>bit_offset = 100, bit_length = 20\<rparr>, \<lparr>bit_offset = 120, bit_length = 16\<rparr>] [] 0 []
   = (ReturnsTrue, \<lparr>read_memory = replicate 17 0, stream_offset = 17, stream_open = True\<rparr>,
      [\<lparr>byte_offset = 13, byte_length = 5\<rparr>, \<lparr>byte_offset = 18, byte_length = 5\<rparr>], 6, [0, 0])"
  by code_simp

lemma run_96_120:
  "FindPuffLocations_loop (whole_buffer_puffer 5) (CreateForRead (replicate 17 0)) None
     [\<lparr>bit_offset = 96, bit_length = 24\<rparr>, \<lparr>bit_offset = 120, bit_length = 16\<rparr>] [] 0 []
   = (ReturnsTrue, \<lparr>read_memory = replicate 17 0, stream_offset = 17, stream_open = True\<rparr>,
      [\<lparr>byte_offset = 12, byte_length = 5\<rparr>, \<lparr>byte_offset = 17, byte_length = 5\<rparr>], 5, [0, 0])"
  by code_simp

lemma run_100_121:
  "FindPuffLocations_loop (whole_buffer_puffer 5) (CreateForRead (replicate 18 0)) None
     [\<lparr>bit_offset = 100, bit_length = 21\<rparr>, \<lparr>bit_offset = 121, bit_length = 16\<rparr>] [] 0 []
   = (ReturnsTrue, \<lparr>read_memory = replicate 18 0, stream_offset = 18, stream_open = True\<rparr>,
      [\<lparr>byte_offset = 13, byte_length = 5\<rparr>, \<lparr>byte_offset = 18, byte_length = 5\<rparr>], 6, [0, 1])"
  by code_simp

lemma GetSize_five: "GetSize (CreateForRead [0, 0, 0, 0, 0]) = Some 5"
  by (simp add: GetSize_def CreateForRead_def buffer_size_def)

lemma GetSize_two: "GetSize (CreateForRead [0, 0]) = Some 2"
  by (simp add: GetSize_def CreateForRead_def buffer_size_def)

section \<open>Claims about the puff-location mapper\<close>

text \<open>
  Claim C2. In every run of the loop of \<^verbatim>\<open>FindPuffLocations\<close> over an ordered sequence of
  bit extents, whether the run succeeds, stops at a failure or leaves through an
  exception, the loop has computed one
  gap flag for every extent it processed; the flag of the first extent is 0, and the flag
  of every later extent is 1 if and only if the previous extent's offset plus its length
  equals this extent's offset and this extent's offset is not a multiple of 8 (and is 0
  otherwise). The sum is the source's: a sum of two 64-bit values.
\<close>

theorem gap_flags_of_run:
  assumes "FindPuffLocations_loop puffer src None deflates puffs 0 [] = (ok, s', puffs', diff, gaps)"
  shows "length gaps \<le> length deflates \<and> (ok = ReturnsTrue \<longrightarrow> length gaps = length deflates)
         \<and> (\<forall>i<length gaps.
               (i = 0 \<longrightarrow> gaps ! i = 0)
               \<and> (0 < i \<longrightarrow>
                    (gaps ! i = 1 \<longleftrightarrow>
                       bit_offset (deflates ! (i - 1)) + bit_length (deflates ! (i - 1))
                         = bit_offset (deflates ! i)
                       \<and> bit_offset (deflates ! i) mod 8 \<noteq> 0)
                    \<and> (gaps ! i = 0 \<or> gaps ! i = 1))
               \<and> gaps ! i = gap_law deflates i)"
proof -
  from FindPuffLocations_loop_gaps [OF assms] have
    len: "length gaps \<le> length deflates" "ok = ReturnsTrue \<longrightarrow> length gaps = length deflates"
    and g: "\<forall>i<length gaps. gaps ! i = gap_law deflates i"
    by (auto simp: gap_law_eq)
  have "(i = 0 \<longrightarrow> gaps ! i = 0)
               \<and> (0 < i \<longrightarrow>
                    (gaps ! i = 1 \<longleftrightarrow>
                       bit_offset (deflates ! (i - 1)) + bit_length (deflates ! (i - 1))
                         = bit_offset (deflates ! i)
                       \<and> bit_offset (deflates ! i) mod 8 \<noteq> 0)
                    \<and> (gaps ! i = 0 \<or> gaps ! i = 1))
               \<and> gaps ! i = gap_law deflates i" if "i < length gaps" for i
  proof -
    from g that have "gaps ! i = gap_law deflates i" by simp
    then show ?thesis by (cases "i = 0") (auto simp add: gap_law_def)
  qed
  with len show ?thesis by blast
qed

text \<open>
  A run of claim C2 with a gap: the extents \<open>(0, 12)\<close> and \<open>(12, 12)\<close> share the byte 1, and
  12 is not a multiple of 8.
\<close>

theorem gap_flags_of_run_witness:
  "FindPuffLocations_loop (fixed_bits_puffer 12 5) (CreateForRead [0, 0, 0, 0, 0]) None
     [\<lparr>bit_offset = 0, bit_length = 12\<rparr>, \<lparr>bit_offset = 12, bit_length = 12\<rparr>] [] 0 []
   = (ReturnsTrue, \<lparr>read_memory = [0, 0, 0, 0, 0], stream_offset = 3, stream_open = True\<rparr>,
      [\<lparr>byte_offset = 0, byte_length = 5\<rparr>, \<lparr>byte_offset = 5, byte_length = 5\<rparr>], 7, [0, 1])
   \<and> length [0, 1 :: int]
       = length [\<lparr>bit_offset = 0, bit_length = 12\<rparr>, \<lparr>bit_offset = 12, bit_length = 12\<rparr>]
   \<and> (0 :: nat) < length [0, 1 :: int] \<and> [0, 1 :: int] ! 0 = 0
   \<and> (1 :: nat) < length [0, 1 :: int] \<and> (0 :: nat) < 1 \<and> [0, 1 :: int] ! 1 = 1
   \<and> bit_offset ([\<lparr>bit_offset = 0, bit_length = 12\<rparr>, \<lparr>bit_offset = 12, bit_length = 12\<rparr>] ! (1 - 1))
       + bit_length ([\<lparr>bit_offset = 0, bit_length = 12\<rparr>, \<lparr>bit_offset = 12, bit_length = 12\<rparr>] ! (1 - 1))
       = bit_offset ([\<lparr>bit_offset = 0, bit_length = 12\<rparr>, \<lparr>bit_offset = 12, bit_length = 12\<rparr>] ! 1)
   \<and> bit_offset ([\<lparr>bit_offset = 0, bit_length = 12\<rparr>, \<lparr>bit_offset = 12, bit_length = 12\<rparr>] ! 1) mod 8
       \<noteq> 0
   \<and> gap_law [\<lparr>bit_offset = 0, bit_length = 12\<rparr>, \<lparr>bit_offset = 12, bit_length = 12\<rparr>] 1 = 1"
  using gap_flags_of_run [OF run_shared_byte] run_shared_byte
  by (simp add: gap_law_def)

text \<open>
  Claim C3 as stated fails in its first half: 120 is a multiple of 8, so the extent
  \<open>(120, 16)\<close> starts on a byte boundary and the loop marks no gap for it after
  \<open>(100, 20)\<close>, although the two are bit-contiguous.
\<close>

theorem gap_example_is_byte_aligned:
  "FindPuffLocations_loop (whole_buffer_puffer 5) (CreateForRead (replicate 17 0)) None
     [\<lparr>bit_offset = 100, bit_length = 20\<rparr>, \<lparr>bit_offset = 120, bit_length = 16\<rparr>] [] 0 []
   = (ReturnsTrue, \<lparr>read_memory = replicate 17 0, stream_offset = 17, stream_open = True\<rparr>,
      [\<lparr>byte_offset = 13, byte_length = 5\<rparr>, \<lparr>byte_offset = 18, byte_length = 5\<rparr>], 6, [0, 0])
   \<and> [0, 0 :: int] ! 1 \<noteq> 1
   \<and> FindPuffLocations_gap (Some \<lparr>bit_offset = 100, bit_length = 20\<rparr>)
        \<lparr>bit_offset = 120, bit_length = 16\<rparr> \<noteq> 1
   \<and> (120 :: 64 word) mod 8 = 0"
  using run_100_120 by (simp add: FindPuffLocations_gap_def)

text \<open>
  Claim C3, amended. When \<^verbatim>\<open>FindPuffLocations\<close> processes the bit extents \<open>(100, 20)\<close> and
  \<open>(120, 16)\<close> it marks no gap for the second, and when it processes \<open>(96, 24)\<close> and
  \<open>(120, 16)\<close> it marks no gap for the second either: both pairs are bit-contiguous and
  120 is a multiple of 8. A pair that is bit-contiguous off a byte boundary, such as
  \<open>(100, 21)\<close> and \<open>(121, 16)\<close>, has a gap marked for its second extent.
\<close>

theorem gap_examples:
  "FindPuffLocations_loop (whole_buffer_puffer 5) (CreateForRead (replicate 17 0)) None
     [\<lparr>bit_offset = 100, bit_length = 20\<rparr>, \<lparr>bit_offset = 120, bit_length = 16\<rparr>] [] 0 []
   = (ReturnsTrue, \<lparr>read_memory = replicate 17 0, stream_offset = 17, stream_open = True\<rparr>,
      [\<lparr>byte_offset = 13, byte_length = 5\<rparr>, \<lparr>byte_offset = 18, byte_length = 5\<rparr>], 6, [0, 0])
   \<and> FindPuffLocations_gap (Some \<lparr>bit_offset = 100, bit_length = 20\<rparr>)
        \<lparr>bit_offset = 120, bit_length = 16\<rparr> = 0
   \<and> FindPuffLocations_loop (whole_buffer_puffer 5) (CreateForRead (replicate 17 0)) None
     [\<lparr>bit_offset = 96, bit_length = 24\<rparr>, \<lparr>bit_offset = 120, bit_length = 16\<rparr>] [] 0 []
   = (ReturnsTrue, \<lparr>read_memory = replicate 17 0, stream_offset = 17, stream_open = True\<rparr>,
      [\<lparr>byte_offset = 12, byte_length = 5\<rparr>, \<lparr>byte_offset = 17, byte_length = 5\<rparr>], 5, [0, 0])
   \<and> FindPuffLocations_gap (Some \<lparr>bit_offset = 96, bit_length = 24\<rparr>)
        \<lparr>bit_offset = 120, bit_length = 16\<rparr> = 0
   \<and> FindPuffLocations_loop (whole_buffer_puffer 5) (CreateForRead (replicate 18 0)) None
     [\<lparr>bit_offset = 100, bit_length = 21\<rparr>, \<lparr>bit_offset = 121, bit_length = 16\<rparr>] [] 0 []
   = (ReturnsTrue, \<lparr>read_memory = replicate 18 0, stream_offset = 18, stream_open = True\<rparr>,
      [\<lparr>byte_offset = 13, byte_length = 5\<rparr>, \<lparr>byte_offset = 18, byte_length = 5\<rparr>], 6, [0, 1])
   \<and> FindPuffLocations_gap (Some \<lparr>bit_offset = 100, bit_length = 21\<rparr>)
        \<lparr>bit_offset = 121, bit_length = 16\<rparr> = 1"
  using run_100_120 run_96_120 run_100_121 by (simp add: FindPuffLocations_gap_def)

text \<open>
  Claim C1 as stated fails in its second formulation: the gap flags are subtracted, not
  added. On the extents \<open>(0, 12)\<close> and \<open>(12, 12)\<close> of a 5-byte stream, with a codec that
  consumes the 12 bits of each and reports puffs of 5 bytes, the differences of destination and source lengths sum to 8 and there is one
  gap; the total is 12, so \<open>total - size\<close> is 7, which is 8 - 1 and not 8 + 1. The flag
  marks a byte shared by two deflates, which the puff of the second absorbs (line 322
  moves its offset one byte back).
\<close>

theorem gap_bytes_are_subtracted:
  "FindPuffLocations (fixed_bits_puffer 12 5) (CreateForRead [0, 0, 0, 0, 0])
        [\<lparr>bit_offset = 0, bit_length = 12\<rparr>, \<lparr>bit_offset = 12, bit_length = 12\<rparr>] []
      = (ReturnsTrue, [\<lparr>byte_offset = 0, byte_length = 5\<rparr>, \<lparr>byte_offset = 5, byte_length = 5\<rparr>],
         Some 12)
   \<and> GetSize (CreateForRead [0, 0, 0, 0, 0]) = Some 5
   \<and> (byte_length \<lparr>byte_offset = 0, byte_length = 5\<rparr>
          - deflate_length_in_bytes \<lparr>bit_offset = 0, bit_length = 12\<rparr>)
       + (byte_length \<lparr>byte_offset = 5, byte_length = 5\<rparr>
          - deflate_length_in_bytes \<lparr>bit_offset = 12, bit_length = 12\<rparr>)
       + (of_int (gap_law [\<lparr>bit_offset = 0, bit_length = 12\<rparr>, \<lparr>bit_offset = 12, bit_length = 12\<rparr>] 0)
          + of_int (gap_law [\<lparr>bit_offset = 0, bit_length = 12\<rparr>, \<lparr>bit_offset = 12, bit_length = 12\<rparr>] 1))
       \<noteq> (12 :: 64 word) - 5"
proof -
  have "FindPuffLocations (fixed_bits_puffer 12 5) (CreateForRead [0, 0, 0, 0, 0])
        [\<lparr>bit_offset = 0, bit_length = 12\<rparr>, \<lparr>bit_offset = 12, bit_length = 12\<rparr>] []
      = (ReturnsTrue, [\<lparr>byte_offset = 0, byte_length = 5\<rparr>, \<lparr>byte_offset = 5, byte_length = 5\<rparr>],
         Some 12)"
    by code_simp
  then show ?thesis
    using GetSize_five by (simp add: deflate_length_in_bytes_def gap_law_def)
qed

text \<open>
  Claim C1, amended. Whenever the loop of \<^verbatim>\<open>FindPuffLocations\<close> has processed every
  extent (a call succeeds only then), the call emits one puff location per extent; the
  running accumulator changes for each extent by the re-encoded puff length less the
  deflate byte length spanned (end byte minus start byte) less the gap flag, and the
  location of each puff is placed by its value at that point; the call returns failure
  instead of a size when the source stream's byte size plus the final accumulator is
  negative as a signed value, and otherwise returns that sum as the total puff size.
  Equivalently, the sum of (destination length - source length) over all extents
  \<^emph>\<open>minus\<close> the gap flags equals the total output size less the source stream's size.
  All arithmetic is that of the source, on 64-bit values.
\<close>

theorem puff_size_law:
  assumes "FindPuffLocations_loop puffer src None deflates [] 0 []
             = (ReturnsTrue, s', puffs, total_size_difference, gaps)"
    and "GetSize src = Some src_size"
  shows "length puffs = length deflates
    \<and> (\<forall>k<length deflates.
          byte_offset (puffs ! k)
            = (bit_offset (deflates ! k) + 7) div 8 - of_int (gap_law deflates k)
              + size_difference_after deflates puffs k)
    \<and> total_size_difference = size_difference_after deflates puffs (length deflates)
    \<and> FindPuffLocations puffer src deflates []
        = (if sint (src_size + total_size_difference) < 0 then (ReturnsFalse, puffs, None)
           else (ReturnsTrue, puffs, Some (src_size + total_size_difference)))
    \<and> (\<Sum>i<length deflates. byte_length (puffs ! i) - deflate_length_in_bytes (deflates ! i))
        - (\<Sum>i<length deflates. of_int (gap_law deflates i))
      = (src_size + total_size_difference) - src_size"
proof -
  from FindPuffLocations_loop_success [OF assms(1)] have
    len: "length puffs = length deflates"
    and mem: "read_memory s' = read_memory src" "stream_open s' = stream_open src"
    and offs: "\<forall>k<length deflates.
          byte_offset (puffs ! k)
            = (bit_offset (deflates ! k) + 7) div 8 - of_int (gap_law deflates k)
              + size_difference_after deflates puffs k"
    and diff: "total_size_difference = size_difference_after deflates puffs (length deflates)"
    by (auto simp: gap_from_None size_difference_after_def)
  have "GetSize s' = Some src_size"
    using GetSize_Some [OF assms(2)] mem by (simp add: GetSize_def)
  then have call: "FindPuffLocations puffer src deflates []
        = (if sint (src_size + total_size_difference) < 0 then (ReturnsFalse, puffs, None)
           else (ReturnsTrue, puffs, Some (src_size + total_size_difference)))"
    using assms(1) by (simp add: FindPuffLocations_def Let_def)
  have "(\<Sum>i<length deflates. byte_length (puffs ! i) - deflate_length_in_bytes (deflates ! i))
        - (\<Sum>i<length deflates. of_int (gap_law deflates i))
      = size_difference_after deflates puffs (length deflates)"
    by (simp add: size_difference_after_def sum_subtractf)
  with len offs diff call show ?thesis by simp
qed

text \<open>
  Two runs of claim C1 as amended: the stream of the counterexample, where the call
  returns 12, and two overlapping extents with empty puffs over a 2-byte stream, where
  the predicted size is \<open>2 - 4\<close> and the call fails.
\<close>

theorem puff_size_law_witness:
  "FindPuffLocations_loop (fixed_bits_puffer 12 5) (CreateForRead [0, 0, 0, 0, 0]) None
     [\<lparr>bit_offset = 0, bit_length = 12\<rparr>, \<lparr>bit_offset = 12, bit_length = 12\<rparr>] [] 0 []
   = (ReturnsTrue, \<lparr>read_memory = [0, 0, 0, 0, 0], stream_offset = 3, stream_open = True\<rparr>,
      [\<lparr>byte_offset = 0, byte_length = 5\<rparr>, \<lparr>byte_offset = 5, byte_length = 5\<rparr>], 7, [0, 1])
   \<and> GetSize (CreateForRead [0, 0, 0, 0, 0]) = Some 5
   \<and> 7 = size_difference_after
        [\<lparr>bit_offset = 0, bit_length = 12\<rparr>, \<lparr>bit_offset = 12, bit_length = 12\<rparr>]
        [\<lparr>byte_offset = 0, byte_length = 5\<rparr>, \<lparr>byte_offset = 5, byte_length = 5\<rparr>]
        (length [\<lparr>bit_offset = 0, bit_length = 12\<rparr>, \<lparr>bit_offset = 12, bit_length = 12\<rparr>])
   \<and> FindPuffLocations (fixed_bits_puffer 12 5) (CreateForRead [0, 0, 0, 0, 0])
        [\<lparr>bit_offset = 0, bit_length = 12\<rparr>, \<lparr>bit_offset = 12, bit_length = 12\<rparr>] []
      = (ReturnsTrue, [\<lparr>byte_offset = 0, byte_length = 5\<rparr>, \<lparr>byte_offset = 5, byte_length = 5\<rparr>],
         Some 12)
   \<and> FindPuffLocations_loop (fixed_bits_puffer 16 0) (CreateForRead [0, 0]) None
     [\<lparr>bit_offset = 0, bit_length = 16\<rparr>, \<lparr>bit_offset = 0, bit_length = 16\<rparr>] [] 0 []
   = (ReturnsTrue, \<lparr>read_memory = [0, 0], stream_offset = 2, stream_open = True\<rparr>,
      [\<lparr>byte_offset = 0, byte_length = 0\<rparr>, \<lparr>byte_offset = - 2, byte_length = 0\<rparr>], - 4, [0, 0])
   \<and> GetSize (CreateForRead [0, 0]) = Some 2
   \<and> sint (2 + - 4 :: 64 word) < 0
   \<and> FindPuffLocations (fixed_bits_puffer 16 0) (CreateForRead [0, 0])
        [\<lparr>bit_offset = 0, bit_length = 16\<rparr>, \<lparr>bit_offset = 0, bit_length = 16\<rparr>] []
      = (ReturnsFalse, [\<lparr>byte_offset = 0, byte_length = 0\<rparr>, \<lparr>byte_offset = - 2, byte_length = 0\<rparr>],
         None)"
proof -
  note w1 = puff_size_law [OF run_shared_byte GetSize_five]
  note w2 = puff_size_law [OF run_overlapping GetSize_two]
  have a: "7 = size_difference_after
        [\<lparr>bit_offset = 0, bit_length = 12\<rparr>, \<lparr>bit_offset = 12, bit_length = 12\<rparr>]
        [\<lparr>byte_offset = 0, byte_length = 5\<rparr>, \<lparr>byte_offset = 5, byte_length = 5\<rparr>]
        (length [\<lparr>bit_offset = 0, bit_length = 12\<rparr>, \<lparr>bit_offset = 12, bit_length = 12\<rparr>])"
    using w1 by blast
  have "FindPuffLocations (fixed_bits_puffer 12 5) (CreateForRead [0, 0, 0, 0, 0])
        [\<lparr>bit_offset = 0, bit_length = 12\<rparr>, \<lparr>bit_offset = 12, bit_length = 12\<rparr>] []
      = (if sint (5 + 7 :: 64 word) < 0
         then (ReturnsFalse, [\<lparr>byte_offset = 0, byte_length = 5\<rparr>, \<lparr>byte_offset = 5, byte_length = 5\<rparr>], None)
         else (ReturnsTrue, [\<lparr>byte_offset = 0, byte_length = 5\<rparr>, \<lparr>byte_offset = 5, byte_length = 5\<rparr>],
               Some (5 + 7)))"
    using w1 by blast
  then have b: "FindPuffLocations (fixed_bits_puffer 12 5) (CreateForRead [0, 0, 0, 0, 0])
        [\<lparr>bit_offset = 0, bit_length = 12\<rparr>, \<lparr>bit_offset = 12, bit_length = 12\<rparr>] []
      = (ReturnsTrue, [\<lparr>byte_offset = 0, byte_length = 5\<rparr>, \<lparr>byte_offset = 5, byte_length = 5\<rparr>],
         Some 12)"
    by simp
  have "FindPuffLocations (fixed_bits_puffer 16 0) (CreateForRead [0, 0])
        [\<lparr>bit_offset = 0, bit_length = 16\<rparr>, \<lparr>bit_offset = 0, bit_length = 16\<rparr>] []
      = (if sint (2 + - 4 :: 64 word) < 0
         then (ReturnsFalse, [\<lparr>byte_offset = 0, byte_length = 0\<rparr>, \<lparr>byte_offset = - 2, byte_length = 0\<rparr>],
               None)
         else (ReturnsTrue, [\<lparr>byte_offset = 0, byte_length = 0\<rparr>, \<lparr>byte_offset = - 2, byte_length = 0\<rparr>],
               Some (2 + - 4)))"
    using w2 by blast
  then have c: "FindPuffLocations (fixed_bits_puffer 16 0) (CreateForRead [0, 0])
        [\<lparr>bit_offset = 0, bit_length = 16\<rparr>, \<lparr>bit_offset = 0, bit_length = 16\<rparr>] []
      = (ReturnsFalse, [\<lparr>byte_offset = 0, byte_length = 0\<rparr>, \<lparr>byte_offset = - 2, byte_length = 0\<rparr>],
         None)"
    by simp
  have d: "sint (2 + - 4 :: 64 word) < 0" by simp
  from run_shared_byte GetSize_five a b run_overlapping GetSize_two d c show ?thesis
    by blast
qed

section \<open>The arithmetic of the zip container scanner\<close>

lemma unat_ucast_16_64: "unat (ucast (w :: 16 word) :: 64 word) = unat w"
  by (simp add: unsigned_ucast_eq take_bit_nat_eq_self_iff)
    (rule order_less_trans [OF unsigned_less], simp)

lemma unat_ucast_32_64: "unat (ucast (w :: 32 word) :: 64 word) = unat w"
  by (simp add: unsigned_ucast_eq take_bit_nat_eq_self_iff)
    (rule order_less_trans [OF unsigned_less], simp)

lemma unat_16_less: "unat (w :: 16 word) < 65536"
  using unsigned_less [of w] by simp

lemma unat_32_less: "unat (w :: 32 word) < 4294967296"
  using unsigned_less [of w] by simp

lemma unat_buffer_size: "length data < 2 ^ 64 \<Longrightarrow> unat (buffer_size data) = length data"
  by (simp add: buffer_size_def unat_of_nat)

lemma unat_header_size:
  "unat (30 + ucast (fnl :: 16 word) + ucast (efl :: 16 word) :: 64 word) = 30 + unat fnl + unat efl"
proof -
  have "unat (30 + ucast fnl + ucast efl :: 64 word)
      = (30 + unat fnl + unat efl) mod 2 ^ 64"
    by (simp add: unat_word_ariths unat_ucast_16_64 mod_simps)
  also have "\<dots> = 30 + unat fnl + unat efl"
    using unat_16_less [of fnl] unat_16_less [of efl] by simp
  finally show ?thesis .
qed

lemma unat_header_plus_size:
  "unat ((30 + ucast (fnl :: 16 word) + ucast (efl :: 16 word) :: 64 word) + ucast (cs :: 32 word))
     = 30 + unat fnl + unat efl + unat cs"
proof -
  have "unat ((30 + ucast fnl + ucast efl :: 64 word) + ucast cs)
      = (30 + unat fnl + unat efl + unat cs) mod 2 ^ 64"
    by (simp add: unat_word_ariths(1) [of _ "ucast cs"] unat_header_size unat_ucast_32_64)
  also have "\<dots> = 30 + unat fnl + unat efl + unat cs"
    using unat_16_less [of fnl] unat_16_less [of efl] unat_32_less [of cs] by simp
  finally show ?thesis .
qed

lemma zip_sanity_check:
  fixes fnl efl :: "16 word" and cs :: "32 word" and pos :: "64 word"
  assumes "length data < 2 ^ 64"
  defines "header_size \<equiv> 30 + ucast fnl + ucast efl :: 64 word"
  shows "(header_size + ucast cs > buffer_size data
           \<or> pos > buffer_size data - header_size - ucast cs)
         \<longleftrightarrow> unat pos + 30 + unat fnl + unat efl + unat cs > length data"
proof -
  let ?H = "30 + unat fnl + unat efl + unat cs"
  have hc: "unat (header_size + ucast cs) = ?H"
    unfolding header_size_def by (rule unat_header_plus_size)
  have sz: "unat (buffer_size data) = length data"
    using assms(1) by (rule unat_buffer_size)
  show ?thesis
  proof (cases "?H > length data")
    case True
    then have "header_size + ucast cs > buffer_size data"
      by (simp add: word_less_nat_alt hc sz)
    with True show ?thesis by simp
  next
    case False
    then have le: "header_size + ucast cs \<le> buffer_size data"
      by (simp add: word_le_nat_alt hc sz)
    have eq: "buffer_size data - header_size - ucast cs = buffer_size data - (header_size + ucast cs)"
      by simp
    have "unat (buffer_size data - header_size - ucast cs) = length data - ?H"
      unfolding eq unat_sub [OF le] hc sz ..
    with False le show ?thesis
      by (auto simp: word_less_nat_alt word_le_nat_alt hc sz not_less)
  qed
qed

lemma get_unaligned32_signature:
  assumes "p + 4 \<le> length data"
  shows "get_unaligned32 data p = Some 0x04034b50 \<longleftrightarrow>
           data ! p = 0x50 \<and> data ! (p + 1) = 0x4B \<and> data ! (p + 2) = 0x03 \<and> data ! (p + 3) = 0x04"
proof -
  let ?w = "ucast (data ! p) OR push_bit 8 (ucast (data ! (p + 1)))
            OR push_bit 16 (ucast (data ! (p + 2))) OR push_bit 24 (ucast (data ! (p + 3))) :: 32 word"
  have b0: "ucast ?w = data ! p"
    by (rule bit_word_eqI) (auto simp add: bit_simps dest: bit_imp_le_length)
  have b1: "ucast (drop_bit 8 ?w) = data ! (p + 1)"
    by (rule bit_word_eqI) (auto simp add: bit_simps dest: bit_imp_le_length)
  have b2: "ucast (drop_bit 16 ?w) = data ! (p + 2)"
    by (rule bit_word_eqI) (auto simp add: bit_simps dest: bit_imp_le_length)
  have b3: "ucast (drop_bit 24 ?w) = data ! (p + 3)"
    by (rule bit_word_eqI) (auto simp add: bit_simps dest: bit_imp_le_length)
  have "?w = 0x04034b50 \<longleftrightarrow>
           data ! p = 0x50 \<and> data ! (p + 1) = 0x4B \<and> data ! (p + 2) = 0x03 \<and> data ! (p + 3) = 0x04"
  proof
    assume w: "?w = 0x04034b50"
    have "data ! p = ucast (0x04034b50 :: 32 word)" using b0 unfolding w by simp
    moreover have "data ! (p + 1) = ucast (drop_bit 8 (0x04034b50 :: 32 word))" using b1 unfolding w by simp
    moreover have "data ! (p + 2) = ucast (drop_bit 16 (0x04034b50 :: 32 word))" using b2 unfolding w by simp
    moreover have "data ! (p + 3) = ucast (drop_bit 24 (0x04034b50 :: 32 word))" using b3 unfolding w by simp
    ultimately show "data ! p = 0x50 \<and> data ! (p + 1) = 0x4B \<and> data ! (p + 2) = 0x03 \<and> data ! (p + 3) = 0x04"
      by (simp add: drop_bit_eq_div)
  next
    assume "data ! p = 0x50 \<and> data ! (p + 1) = 0x4B \<and> data ! (p + 2) = 0x03 \<and> data ! (p + 3) = 0x04"
    then show "?w = 0x04034b50" by simp
  qed
  then show ?thesis
    using assms by (simp add: get_unaligned32_def)
qed


lemma short_buffer_bound:
  assumes "length data < 30" and "unat (pos :: size_t) \<le> length data"
  shows "pos \<le> buffer_size data - 30"
proof -
  have sz: "unat (buffer_size data) = length data"
    using assms(1) by (simp add: buffer_size_def unat_of_nat)
  have "unat (buffer_size data - 30) = length data + 2 ^ 64 - 30"
    using assms(1) by (simp add: unat_sub_if_size sz word_size)
  then show ?thesis
    using assms by (simp add: word_le_nat_alt)
qed


lemma short_buffer_step:
  assumes "length data < 30" and "unat (pos :: size_t) \<le> length data"
  shows "zip_scan_step inflate data pos blocks = Inl OutOfBoundsRead
         \<or> (\<exists>pos'. zip_scan_step inflate data pos blocks = Inr (pos', blocks)
               \<and> unat pos < unat pos' \<and> unat pos' \<le> length data)"
proof (cases "unat pos + 4 \<le> length data")
  case False
  then show ?thesis
    by (simp add: zip_scan_step_def get_unaligned32_def)
next
  case True
  have p1: "unat (pos + 1) = unat pos + 1" and p4: "unat (pos + 4) = unat pos + 4"
    using True assms(1) by (simp_all add: unat_word_ariths(1))
  have last: "get_unaligned16 data (unat pos + 28) = None"
    using assms(1) by (simp add: get_unaligned16_def)
  show ?thesis
    using True p1 p4 last
    by (auto simp: zip_scan_step_def split: option.splits)
qed

lemma short_buffer_loop:
  assumes "length data < 30"
  shows "unat (pos :: size_t) \<le> length data \<Longrightarrow>
         LocateDeflatesInZipArchive_loop inflate data pos blocks = Some (Inl OutOfBoundsRead)"
proof (induction "length data - unat pos" arbitrary: pos rule: less_induct)
  case less
  have cond: "pos \<le> buffer_size data - 30"
    using assms less.prems by (rule short_buffer_bound)
  from short_buffer_step [OF assms less.prems, of inflate blocks]
  show ?case
  proof
    assume "zip_scan_step inflate data pos blocks = Inl OutOfBoundsRead"
    with cond show ?thesis
      by (subst LocateDeflatesInZipArchive_loop.simps) simp
  next
    assume "\<exists>pos'. zip_scan_step inflate data pos blocks = Inr (pos', blocks)
               \<and> unat pos < unat pos' \<and> unat pos' \<le> length data"
    then obtain pos' where step: "zip_scan_step inflate data pos blocks = Inr (pos', blocks)"
      and lt: "unat pos < unat pos'" and le: "unat pos' \<le> length data"
      by blast
    have "LocateDeflatesInZipArchive_loop inflate data pos' blocks = Some (Inl OutOfBoundsRead)"
      using lt le by (intro less.hyps) simp_all
    with cond step show ?thesis
      by (subst LocateDeflatesInZipArchive_loop.simps) simp
  qed
qed

lemma zip_scan_step_in_bounds:
  assumes "unat pos + 30 \<le> length data"
  shows "\<exists>pos' blocks'. zip_scan_step inflate data pos blocks = Inr (pos', blocks')"
  using assms
  by (auto simp: zip_scan_step_def get_unaligned32_def get_unaligned16_def Let_def
      split: option.splits)

lemma zip_loop_guard:
  assumes "length data < 2 ^ 64" and "unat (pos :: size_t) + 30 \<le> length data"
  shows "pos \<le> buffer_size data - 30"
proof -
  have sz: "unat (buffer_size data) = length data"
    using assms(1) by (rule unat_buffer_size)
  have "(30 :: size_t) \<le> buffer_size data"
    using assms(2) by (simp add: word_le_nat_alt sz)
  then have "unat (buffer_size data - 30) = length data - 30"
    by (simp add: unat_sub sz)
  then show ?thesis
    using assms(2) by (simp add: word_le_nat_alt)
qed

lemma zip_loop_continues:
  assumes "pos \<le> buffer_size data - 30"
    and "zip_scan_step inflate data pos blocks = Inr (pos', blocks')"
  shows "LocateDeflatesInZipArchive_loop inflate data pos blocks
           = LocateDeflatesInZipArchive_loop inflate data pos' blocks'"
  using assms by (subst LocateDeflatesInZipArchive_loop.simps) simp

lemma zip_loop_ends:
  assumes "\<not> pos \<le> buffer_size data - 30"
  shows "LocateDeflatesInZipArchive_loop inflate data pos blocks = Some (Inr blocks)"
  using assms by (subst LocateDeflatesInZipArchive_loop.simps) simp

lemma CalculateSizeOfDeflateBlock_None:
  "CalculateSizeOfDeflateBlock inflate data start = None \<longleftrightarrow>
     \<not> start < buffer_size data
     \<or> inflate (drop (unat start) data) (ucast (buffer_size data - start)) = None"
  by (auto simp: CalculateSizeOfDeflateBlock_def split: option.splits)

lemma CalculateSizeOfDeflateBlock_Some:
  assumes "start < buffer_size data"
    and "inflate (drop (unat start) data) (ucast (buffer_size data - start))
           = Some (avail_in, uncompressed_size)"
  shows "CalculateSizeOfDeflateBlock inflate data start
           = Some (buffer_size data - start - ucast avail_in, uncompressed_size)"
  using assms by (simp add: CalculateSizeOfDeflateBlock_def)

section \<open>Scan steps with a whole header in the buffer\<close>

text \<open>
  A scan step at a position \<open>pos\<close> with at least 30 bytes left. If the four bytes at
  \<open>pos\<close> are not \<open>50 4B 03 04\<close>, the signature \<open>0x04034b50\<close> in little-endian order, it
  advances by 1. If the signature matches but the declared compression method is not 8,
  or the payload start \<open>pos + 30 + filename_len + extra_len\<close> plus the declared
  compressed size exceeds the buffer, or the decompression probe fails (the payload
  start is the end of the buffer, or zlib fails on the bytes from the payload start to
  the end of the buffer), it advances by 4. If the probe succeeds, it emits the byte
  extent of the payload start and the probed compressed size, the bytes offered to zlib
  less the bytes zlib left, whatever the header declares, and advances past the consumed
  payload. No such step aborts the scan: the loop goes on from the new position, and
  returns the extents found when fewer than 30 bytes remain there.
\<close>

lemma zip_scan_step_in_range:
  fixes data :: Buffer and pos :: size_t
  assumes "length data < 2 ^ 64" and "unat pos + 30 \<le> length data"
    and "get_unaligned32 data (unat pos) = Some signature"
    and "get_unaligned16 data (unat pos + 8) = Some compression_method"
    and "get_unaligned32 data (unat pos + 18) = Some compressed_size"
    and "get_unaligned16 data (unat pos + 26) = Some file_name_length"
    and "get_unaligned16 data (unat pos + 28) = Some extra_field_length"
    and "header_size = 30 + ucast file_name_length + ucast extra_field_length"
    and "payload_start = pos + header_size"
  shows "(signature = 0x04034b50 \<longleftrightarrow>
            data ! unat pos = 0x50 \<and> data ! (unat pos + 1) = 0x4B
            \<and> data ! (unat pos + 2) = 0x03 \<and> data ! (unat pos + 3) = 0x04)
    \<and> unat header_size = 30 + unat file_name_length + unat extra_field_length
    \<and> (signature \<noteq> 0x04034b50 \<longrightarrow>
          zip_scan_step inflate data pos deflate_blocks = Inr (pos + 1, deflate_blocks))
    \<and> (signature = 0x04034b50
        \<and> (compression_method \<noteq> 8
            \<or> unat pos + unat header_size + unat compressed_size > length data
            \<or> \<not> payload_start < buffer_size data
            \<or> inflate (drop (unat payload_start) data) (ucast (buffer_size data - payload_start))
                = None) \<longrightarrow>
          zip_scan_step inflate data pos deflate_blocks = Inr (pos + 4, deflate_blocks))
    \<and> (signature = 0x04034b50 \<and> compression_method = 8
        \<and> unat pos + unat header_size + unat compressed_size \<le> length data
        \<and> payload_start < buffer_size data
        \<and> inflate (drop (unat payload_start) data) (ucast (buffer_size data - payload_start))
            = Some (avail_in, probed_uncompressed_size) \<longrightarrow>
          zip_scan_step inflate data pos deflate_blocks
            = Inr (payload_start + (buffer_size data - payload_start - ucast avail_in),
                   deflate_blocks @
                   [\<lparr>byte_offset = payload_start,
                     byte_length = buffer_size data - payload_start - ucast avail_in\<rparr>])
          \<and> unat payload_start = unat pos + unat header_size)
    \<and> (\<exists>pos' deflate_blocks'.
          zip_scan_step inflate data pos deflate_blocks = Inr (pos', deflate_blocks')
          \<and> LocateDeflatesInZipArchive_loop inflate data pos deflate_blocks
              = LocateDeflatesInZipArchive_loop inflate data pos' deflate_blocks'
          \<and> (\<not> pos' \<le> buffer_size data - 30 \<longrightarrow>
                LocateDeflatesInZipArchive_loop inflate data pos deflate_blocks
                  = Some (Inr deflate_blocks')))"
proof -
  have hs: "unat header_size = 30 + unat file_name_length + unat extra_field_length"
    unfolding assms(8) by (rule unat_header_size)
  have sig: "signature = 0x04034b50 \<longleftrightarrow>
            data ! unat pos = 0x50 \<and> data ! (unat pos + 1) = 0x4B
            \<and> data ! (unat pos + 2) = 0x03 \<and> data ! (unat pos + 3) = 0x04"
    using get_unaligned32_signature [of "unat pos" data] assms(2,3) by simp
  obtain uncompressed_size where us: "get_unaligned32 data (unat pos + 22) = Some uncompressed_size"
    using assms(2) by (simp add: get_unaligned32_def)
  have sanity: "(header_size + ucast compressed_size > buffer_size data
           \<or> pos > buffer_size data - header_size - ucast compressed_size)
         \<longleftrightarrow> unat pos + unat header_size + unat compressed_size > length data"
  proof -
    have "(header_size + ucast compressed_size > buffer_size data
           \<or> pos > buffer_size data - header_size - ucast compressed_size)
         \<longleftrightarrow> unat pos + 30 + unat file_name_length + unat extra_field_length
               + unat compressed_size > length data"
      unfolding assms(8)
      by (rule zip_sanity_check [OF assms(1)])
    also have "\<dots> \<longleftrightarrow> unat pos + unat header_size + unat compressed_size > length data"
      using hs by arith
    finally show ?thesis .
  qed
  have mismatch: "zip_scan_step inflate data pos deflate_blocks = Inr (pos + 1, deflate_blocks)"
    if "signature \<noteq> 0x04034b50"
    using that assms(3) by (simp add: zip_scan_step_def)
  have skip: "zip_scan_step inflate data pos deflate_blocks = Inr (pos + 4, deflate_blocks)"
    if "signature = 0x04034b50"
      and "compression_method \<noteq> 8
            \<or> unat pos + unat header_size + unat compressed_size > length data
            \<or> \<not> payload_start < buffer_size data
            \<or> inflate (drop (unat payload_start) data) (ucast (buffer_size data - payload_start))
                = None"
  proof (cases "compression_method \<noteq> 8")
    case True
    with that(1) assms(3,4) show ?thesis by (simp add: zip_scan_step_def)
  next
    case False
    show ?thesis
    proof (cases "unat pos + unat header_size + unat compressed_size > length data")
      case True
      with sanity have "header_size + ucast compressed_size > buffer_size data
           \<or> pos > buffer_size data - header_size - ucast compressed_size" by simp
      with False that(1) assms(3-7) us show ?thesis
        unfolding assms(8) by (simp add: zip_scan_step_def Let_def)
    next
      case nofit: False
      with False that(2) have "CalculateSizeOfDeflateBlock inflate data payload_start = None"
        unfolding CalculateSizeOfDeflateBlock_None by simp
      then have none: "CalculateSizeOfDeflateBlock inflate data (pos + header_size) = None"
        unfolding assms(9) .
      from nofit sanity have "\<not> (header_size + ucast compressed_size > buffer_size data
           \<or> pos > buffer_size data - header_size - ucast compressed_size)" by simp
      with False that(1) assms(3-7) us none show ?thesis
        unfolding assms(8) by (simp add: zip_scan_step_def Let_def)
    qed
  qed
  have emit: "zip_scan_step inflate data pos deflate_blocks
            = Inr (payload_start + (buffer_size data - payload_start - ucast avail_in),
                   deflate_blocks @
                   [\<lparr>byte_offset = payload_start,
                     byte_length = buffer_size data - payload_start - ucast avail_in\<rparr>])
          \<and> unat payload_start = unat pos + unat header_size"
    if "signature = 0x04034b50" and "compression_method = 8"
      and fit: "unat pos + unat header_size + unat compressed_size \<le> length data"
      and inside: "payload_start < buffer_size data"
      and inflated: "inflate (drop (unat payload_start) data)
            (ucast (buffer_size data - payload_start)) = Some (avail_in, probed_uncompressed_size)"
  proof -
    have "CalculateSizeOfDeflateBlock inflate data payload_start
            = Some (buffer_size data - payload_start - ucast avail_in, probed_uncompressed_size)"
      using inside inflated by (rule CalculateSizeOfDeflateBlock_Some)
    then have probe: "CalculateSizeOfDeflateBlock inflate data (pos + header_size)
            = Some (buffer_size data - payload_start - ucast avail_in, probed_uncompressed_size)"
      unfolding assms(9) .
    from fit sanity have "\<not> (header_size + ucast compressed_size > buffer_size data
           \<or> pos > buffer_size data - header_size - ucast compressed_size)" by simp
    with that(1,2) assms(3-7) us probe have "zip_scan_step inflate data pos deflate_blocks
            = Inr (pos + header_size + (buffer_size data - payload_start - ucast avail_in),
                   deflate_blocks @
                   [\<lparr>byte_offset = pos + header_size,
                     byte_length = buffer_size data - payload_start - ucast avail_in\<rparr>])"
      unfolding assms(8) by (simp add: zip_scan_step_def Let_def)
    then have "zip_scan_step inflate data pos deflate_blocks
            = Inr (payload_start + (buffer_size data - payload_start - ucast avail_in),
                   deflate_blocks @
                   [\<lparr>byte_offset = payload_start,
                     byte_length = buffer_size data - payload_start - ucast avail_in\<rparr>])"
      unfolding assms(9) .
    moreover have "unat pos + unat header_size < 2 ^ 64"
      using fit assms(1) by simp
    then have "unat payload_start = unat pos + unat header_size"
      unfolding assms(9) by (simp add: unat_word_ariths(1))
    ultimately show ?thesis by simp
  qed
  have goes_on: "\<exists>pos' deflate_blocks'.
          zip_scan_step inflate data pos deflate_blocks = Inr (pos', deflate_blocks')
          \<and> LocateDeflatesInZipArchive_loop inflate data pos deflate_blocks
              = LocateDeflatesInZipArchive_loop inflate data pos' deflate_blocks'
          \<and> (\<not> pos' \<le> buffer_size data - 30 \<longrightarrow>
                LocateDeflatesInZipArchive_loop inflate data pos deflate_blocks
                  = Some (Inr deflate_blocks'))"
  proof -
    obtain pos' deflate_blocks' where
      step: "zip_scan_step inflate data pos deflate_blocks = Inr (pos', deflate_blocks')"
      using zip_scan_step_in_bounds [OF assms(2)] by blast
    have continues: "LocateDeflatesInZipArchive_loop inflate data pos deflate_blocks
              = LocateDeflatesInZipArchive_loop inflate data pos' deflate_blocks'"
      using zip_loop_guard [OF assms(1,2)] step by (rule zip_loop_continues)
    have "LocateDeflatesInZipArchive_loop inflate data pos deflate_blocks
                  = Some (Inr deflate_blocks')" if "\<not> pos' \<le> buffer_size data - 30"
      unfolding continues using that by (rule zip_loop_ends)
    with step continues show ?thesis by blast
  qed
  from hs sig mismatch skip emit goes_on show ?thesis by blast
qed

text \<open>
  Whole scans. The entry with method 8 whose header declares no sizes: zlib is offered
  the five bytes behind the header and leaves three, and the extent \<open>(30, 2)\<close> is
  emitted. The stored entry: skipped by 4, then the position 4 holds no signature. The
  header with nothing behind it: the payload start is the end of the buffer and zlib is
  not asked, so nothing is emitted even when zlib would report success.
\<close>

lemma scan_deflated_entry:
  "zip_scan_step two_byte_inflate zip_deflated_entry 0 []
     = Inr (32, [\<lparr>byte_offset = 30, byte_length = 2\<rparr>])"
  "zip_scan_step two_byte_inflate zip_deflated_entry 1 [] = Inr (2, [])"
  "LocateDeflatesInZipArchive two_byte_inflate zip_deflated_entry []
     = Some (Inr [\<lparr>byte_offset = 30, byte_length = 2\<rparr>])"
  by (code_simp, code_simp, code_simp)

lemma scan_stored_entry:
  "zip_scan_step two_byte_inflate zip_stored_entry 0 [] = Inr (4, [])"
  "zip_scan_step two_byte_inflate zip_stored_entry 4 [] = Inr (5, [])"
  "LocateDeflatesInZipArchive two_byte_inflate zip_stored_entry [] = Some (Inr [])"
  by (code_simp, code_simp, code_simp)

lemma scan_header_only:
  "CalculateSizeOfDeflateBlock idle_inflate zip_header_only 30 = None"
  "zip_scan_step idle_inflate zip_header_only 0 [] = Inr (4, [])"
  "LocateDeflatesInZipArchive idle_inflate zip_header_only [] = Some (Inr [])"
  by (code_simp, code_simp, code_simp)

section \<open>Claims about the zip container scanner\<close>



text \<open>
  Claim C5, at the inputs where the code departs from it. For a buffer shorter than 30
  bytes \<^verbatim>\<open>data.size() - 30\<close> wraps around to a value near \<open>2 ^ 64\<close>, the loop condition of
  line 184 holds at every position inside the buffer, and the scan goes on until a read
  leaves the buffer: every such scan ends in a read outside the buffer, instead of
  performing no iteration and returning an empty output.
\<close>

theorem short_buffer_read_out_of_bounds:
  "length data < 30 \<Longrightarrow>
     LocateDeflatesInZipArchive inflate data deflate_blocks = Some (Inl OutOfBoundsRead)"
  by (simp add: LocateDeflatesInZipArchive_def short_buffer_loop)

text \<open>
  Two scans of claim C5: the empty buffer, where the first read of the signature is
  already outside, and a buffer of the four signature bytes, where the read of the
  compression method at offset 8 is.
\<close>

theorem short_buffer_read_out_of_bounds_witness:
  "length ([] :: Buffer) < 30
   \<and> LocateDeflatesInZipArchive (\<lambda>next_in avail_in. None) [] [] = Some (Inl OutOfBoundsRead)
   \<and> length [0x50, 0x4B, 3, 4 :: 8 word] < 30
   \<and> LocateDeflatesInZipArchive (\<lambda>next_in avail_in. None) [0x50, 0x4B, 3, 4] []
       = Some (Inl OutOfBoundsRead)"
  using short_buffer_read_out_of_bounds [of "[]" "\<lambda>next_in avail_in. None" "[]"]
    short_buffer_read_out_of_bounds [of "[0x50, 0x4B, 3, 4]" "\<lambda>next_in avail_in. None" "[]"]
  by simp
end
